theory Spec2Isabelle
  imports Main "HOL-Library.Signed_Division"
begin

unbundle bit_operations_syntax

section \<open>juce::ArrayBase: the growable contiguous buffer\<close>

text \<open>
  The development embeds \<^verbatim>\<open>modules/juce_core/containers/juce_ArrayBase.h\<close>. Every member
  function of the class becomes a function on an explicit container state; every loop becomes a
  recursive function with the loop's own counter and pointers as arguments.
\<close>

subsection \<open>The type \<^verbatim>\<open>int\<close>\<close>

text \<open>
  \<^verbatim>\<open>numAllocated\<close>, \<^verbatim>\<open>numUsed\<close> and every index and count are C++ \<^verbatim>\<open>int\<close>s, 32 bits wide on
  the platforms the library supports. The model computes on \<^typ>\<open>int\<close> and writes the
  two's-complement wrap-around out: \<open>int32\<close> is applied to the value of every \<^verbatim>\<open>int\<close> sum
  or difference whose operands come from the caller or from the counters (wrapping once at the
  end of a sum is the same as wrapping after each addition). A loop counter that runs from 0 up
  to an \<^verbatim>\<open>int\<close> bound, and a difference of two values that a preceding
  \<^verbatim>\<open>isPositiveAndBelow\<close> has confined to \<open>[0, numUsed)\<close>, cannot leave the range and are
  written without it. A pointer into the block is its offset from the block's start, and is not
  an \<^verbatim>\<open>int\<close>. Division is C++'s, truncating towards zero (\<open>sdiv\<close>).
\<close>

definition INT_MAX :: int where
  "INT_MAX = 2147483647"

definition INT_MIN :: int where
  "INT_MIN = - 2147483648"

definition int32 :: "int \<Rightarrow> int" where
  "int32 x = signed_take_bit 31 x"

definition is_int :: "int \<Rightarrow> bool" where
  "is_int x = (INT_MIN \<le> x \<and> x \<le> INT_MAX)"

text \<open>
  Modelled from the spec: \<^verbatim>\<open>isPositiveAndBelow\<close> is declared in juce_MathsFunctions.h, which is
  not among the sources; the spec reads it as ``within \<open>[0, len)\<close>''.
\<close>

definition isPositiveAndBelow :: "int \<Rightarrow> int \<Rightarrow> bool" where
  "isPositiveAndBelow valueToTest upperLimit = (0 \<le> valueToTest \<and> valueToTest < upperLimit)"

subsection \<open>Storage and element lifecycle\<close>

text \<open>
  A slot of the storage block either holds no object (\<open>Raw\<close>: never constructed, or
  destroyed), a live object with a value, or an object that \<^verbatim>\<open>std::move\<close> has emptied
  (\<open>MovedFrom\<close>: still alive, its value unspecified).
\<close>

datatype 'a slot = Raw | Obj 'a | MovedFrom

fun residue :: "'a slot \<Rightarrow> 'a slot" where
  "residue (Obj v) = MovedFrom"
| "residue x = x"

text \<open>
  The two compile-time properties of \<^verbatim>\<open>ElementType\<close> that select between the overloads of
  the private helpers (\<^verbatim>\<open>TriviallyCopyableVoid\<close> / \<^verbatim>\<open>NonTriviallyCopyableVoid\<close>, and the two
  \<^verbatim>\<open>moveAssignElement\<close>s).
\<close>

record ElementTraits =
  is_trivially_copyable :: bool
  is_move_assignable :: bool

text \<open>
  The data members. \<open>elements\<close> is the \<^verbatim>\<open>HeapBlock\<close>: the slot at offset \<open>i\<close> from the
  block's start; the block proper is \<open>[0, numAllocated)\<close>, and an access outside it is an access
  to a slot outside that interval. \<open>destroyed\<close> is the trace of destructor calls: the offset
  of every \<^verbatim>\<open>~ElementType()\<close> executed so far, in execution order.
\<close>

record 'a ArrayBase =
  elements :: "int \<Rightarrow> 'a slot"
  numAllocated :: int
  numUsed :: int
  destroyed :: "int list"

text \<open>\<^verbatim>\<open>ArrayBase() = default\<close>: no storage, \<^verbatim>\<open>numAllocated = 0, numUsed = 0\<close>.\<close>

definition ArrayBase_default :: "'a ArrayBase" where
  "ArrayBase_default = \<lparr>elements = (\<lambda>_. Raw), numAllocated = 0, numUsed = 0, destroyed = []\<rparr>"

text \<open>The sequence the container presents: the slots \<open>[begin(), end())\<close>.\<close>

definition contents :: "'a ArrayBase \<Rightarrow> 'a slot list" where
  "contents s = map (\<lambda>i. elements s (int i)) [0..<nat (numUsed s)]"

definition size_arr :: "'a ArrayBase \<Rightarrow> int" where
  "size_arr s = numUsed s"

definition capacity :: "'a ArrayBase \<Rightarrow> int" where
  "capacity s = numAllocated s"

text \<open>
  The read accessors with a fallback: each returns the object it reads, and a default-constructed
  \<^verbatim>\<open>ElementType()\<close>, here \<open>Obj dflt\<close>, where the source does.
\<close>

definition getValueWithDefault :: "'a \<Rightarrow> int \<Rightarrow> 'a ArrayBase \<Rightarrow> 'a slot" where
  "getValueWithDefault dflt index s =
     (if isPositiveAndBelow index (numUsed s) then elements s index else Obj dflt)"

definition getFirst :: "'a \<Rightarrow> 'a ArrayBase \<Rightarrow> 'a slot" where
  "getFirst dflt s = (if numUsed s > 0 then elements s 0 else Obj dflt)"

definition getLast :: "'a \<Rightarrow> 'a ArrayBase \<Rightarrow> 'a slot" where
  "getLast dflt s = (if numUsed s > 0 then elements s (numUsed s - 1) else Obj dflt)"

text \<open>
  \<^verbatim>\<open>p->~ElementType()\<close>: the object's lifetime ends and the call is recorded. (The destructor
  of a trivially copyable type leaves the bytes in place; the slot holds no object all the same.)
\<close>

definition destroy :: "int \<Rightarrow> 'a ArrayBase \<Rightarrow> 'a ArrayBase" where
  "destroy p s = s\<lparr>elements := (elements s)(p := Raw), destroyed := destroyed s @ [p]\<rparr>"

text \<open>\<^verbatim>\<open>new (p) ElementType (x)\<close>, for the slot content \<open>x\<close> read from the source.\<close>

definition construct :: "int \<Rightarrow> 'a slot \<Rightarrow> 'a ArrayBase \<Rightarrow> 'a ArrayBase" where
  "construct p x s = s\<lparr>elements := (elements s)(p := x)\<rparr>"

text \<open>What \<^verbatim>\<open>std::move (*p)\<close> leaves at \<open>p\<close> once a move constructor or move assignment has
  consumed it.\<close>

definition moved_out :: "int \<Rightarrow> 'a ArrayBase \<Rightarrow> 'a ArrayBase" where
  "moved_out p s = s\<lparr>elements := (elements s)(p := residue (elements s p))\<rparr>"

text \<open>\<^verbatim>\<open>new (dst) ElementType (std::move (*src))\<close> inside the block.\<close>

definition move_construct :: "int \<Rightarrow> int \<Rightarrow> 'a ArrayBase \<Rightarrow> 'a ArrayBase" where
  "move_construct dst src s = moved_out src (construct dst (elements s src) s)"

text \<open>
  \<^verbatim>\<open>moveAssignElement (destination, std::move (source))\<close> with the source's content \<open>x\<close>:
  a move assignment where the type has one, else destroy and move-construct.
\<close>

definition moveAssignElement :: "ElementTraits \<Rightarrow> int \<Rightarrow> 'a slot \<Rightarrow> 'a ArrayBase \<Rightarrow> 'a ArrayBase" where
  "moveAssignElement tr destination x s =
     (if is_move_assignable tr then s\<lparr>elements := (elements s)(destination := x)\<rparr>
      else construct destination x (destroy destination s))"

text \<open>
  \<^verbatim>\<open>memmove (elements + dst, elements + src, n * sizeof (ElementType))\<close>: the \<open>n\<close> slots
  from \<open>src\<close> are copied to \<open>dst\<close> as with an intermediate buffer. The C++ casts \<open>n\<close> to
  \<^verbatim>\<open>size_t\<close>; for a negative \<open>n\<close> that is a length beyond any block and the call has no
  defined result, which the model leaves as no copy.
\<close>

definition memmove :: "int \<Rightarrow> int \<Rightarrow> int \<Rightarrow> 'a ArrayBase \<Rightarrow> 'a ArrayBase" where
  "memmove dst src n s =
     s\<lparr>elements := (\<lambda>i. if dst \<le> i \<and> i < dst + n then elements s (src + (i - dst))
                         else elements s i)\<rparr>"

text \<open>\<^verbatim>\<open>memcpy\<close> from storage outside the block (\<open>from k\<close> is the source's slot \<open>k\<close>), with
  the same reading of a negative \<open>n\<close>.\<close>

definition memcpy_in :: "int \<Rightarrow> (int \<Rightarrow> 'a slot) \<Rightarrow> int \<Rightarrow> 'a ArrayBase \<Rightarrow> 'a ArrayBase" where
  "memcpy_in dst from n s =
     s\<lparr>elements := (\<lambda>i. if dst \<le> i \<and> i < dst + n then from (i - dst) else elements s i)\<rparr>"

text \<open>A caller's array \<open>xs\<close> seen through a pointer to its first element.\<close>

definition read_src :: "'a list \<Rightarrow> int \<Rightarrow> 'a slot" where
  "read_src xs k = (if 0 \<le> k \<and> k < int (length xs) then Obj (xs ! nat k) else Raw)"

subsection \<open>Capacity\<close>

text \<open>
  Modelled from the spec: \<^verbatim>\<open>HeapBlock\<close> (juce_HeapBlock.h) is not among the sources.
  \<^verbatim>\<open>realloc\<close> keeps the slots both the old and the new block have (``relocate it into the
  new storage at the same index''), \<^verbatim>\<open>free\<close> ``releases the storage region entirely'', and a
  new block holds no object.
\<close>

definition HeapBlock_realloc :: "(int \<Rightarrow> 'a slot) \<Rightarrow> int \<Rightarrow> int \<Rightarrow> (int \<Rightarrow> 'a slot)" where
  "HeapBlock_realloc block oldSize newSize =
     (\<lambda>i. if 0 \<le> i \<and> i < min oldSize newSize then block i else Raw)"

definition HeapBlock_free :: "int \<Rightarrow> 'a slot" where
  "HeapBlock_free = (\<lambda>_. Raw)"

definition HeapBlock_new :: "int \<Rightarrow> (int \<Rightarrow> 'a slot)" where
  "HeapBlock_new numElements = (\<lambda>_. Raw)"

text \<open>
  The loop of the non-trivially-copyable \<^verbatim>\<open>setAllocatedSizeInternal\<close>:
  \<^verbatim>\<open>for (int i = 0; i < numUsed; ++i) { new (newElements + i) ElementType (std::move (elements[i]));
  elements[i].~ElementType(); }\<close>
\<close>

function setAllocatedSizeInternal_loop ::
  "int \<Rightarrow> (int \<Rightarrow> 'a slot) \<Rightarrow> 'a ArrayBase \<Rightarrow> (int \<Rightarrow> 'a slot) \<times> 'a ArrayBase" where
  "setAllocatedSizeInternal_loop i newElements s =
     (if i < numUsed s
      then setAllocatedSizeInternal_loop (i + 1) (newElements(i := elements s i))
             (destroy i (moved_out i s))
      else (newElements, s))"
  by pat_completeness auto
termination
  by (relation "measure (\<lambda>(i, newElements, s). nat (numUsed s - i))")
     (auto simp: destroy_def moved_out_def)

declare setAllocatedSizeInternal_loop.simps [simp del]

definition setAllocatedSizeInternal :: "ElementTraits \<Rightarrow> int \<Rightarrow> 'a ArrayBase \<Rightarrow> 'a ArrayBase" where
  "setAllocatedSizeInternal tr numElements s =
     (if is_trivially_copyable tr
      then s\<lparr>elements := HeapBlock_realloc (elements s) (numAllocated s) numElements\<rparr>
      else (case setAllocatedSizeInternal_loop 0 (HeapBlock_new numElements) s of
              (newElements, s') \<Rightarrow> s'\<lparr>elements := newElements\<rparr>))"

text \<open>\<^verbatim>\<open>jassert (numElements >= numUsed)\<close> documents the precondition; it does not stop the call.\<close>

definition setAllocatedSize :: "ElementTraits \<Rightarrow> int \<Rightarrow> 'a ArrayBase \<Rightarrow> 'a ArrayBase" where
  "setAllocatedSize tr numElements s =
     (let s' = (if numAllocated s \<noteq> numElements
                then (if numElements > 0 then setAllocatedSizeInternal tr numElements s
                      else s\<lparr>elements := HeapBlock_free\<rparr>)
                else s)
      in s'\<lparr>numAllocated := numElements\<rparr>)"

definition ensureAllocatedSize :: "ElementTraits \<Rightarrow> int \<Rightarrow> 'a ArrayBase \<Rightarrow> 'a ArrayBase" where
  "ensureAllocatedSize tr minNumElements s =
     (if minNumElements > numAllocated s
      then setAllocatedSize tr (int32 (minNumElements + minNumElements sdiv 2 + 8) AND NOT 7) s
      else s)"

definition shrinkToNoMoreThan :: "ElementTraits \<Rightarrow> int \<Rightarrow> 'a ArrayBase \<Rightarrow> 'a ArrayBase" where
  "shrinkToNoMoreThan tr maxNumElements s =
     (if maxNumElements < numAllocated s then setAllocatedSize tr maxNumElements s else s)"

subsection \<open>clear\<close>

text \<open>\<^verbatim>\<open>for (int i = 0; i < numUsed; ++i) elements[i].~ElementType();\<close>\<close>

function clear_loop :: "int \<Rightarrow> 'a ArrayBase \<Rightarrow> 'a ArrayBase" where
  "clear_loop i s = (if i < numUsed s then clear_loop (i + 1) (destroy i s) else s)"
  by pat_completeness auto
termination
  by (relation "measure (\<lambda>(i, s). nat (numUsed s - i))") (auto simp: destroy_def)

declare clear_loop.simps [simp del]

definition clear :: "'a ArrayBase \<Rightarrow> 'a ArrayBase" where
  "clear s = (clear_loop 0 s)\<lparr>numUsed := 0\<rparr>"

subsection \<open>add and addArray\<close>

text \<open>\<^verbatim>\<open>new (elements + numUsed++) ElementType (element)\<close>, for the copying and the moving
  overload alike: the argument is the caller's object, outside the block.\<close>

definition addAssumingCapacityIsReady :: "'a \<Rightarrow> 'a ArrayBase \<Rightarrow> 'a ArrayBase" where
  "addAssumingCapacityIsReady element s =
     (construct (numUsed s) (Obj element) s)\<lparr>numUsed := int32 (numUsed s + 1)\<rparr>"

text \<open>The variadic overloads recurse through the parameter pack, first element first.\<close>

fun addAssumingCapacityIsReady_pack :: "'a \<Rightarrow> 'a list \<Rightarrow> 'a ArrayBase \<Rightarrow> 'a ArrayBase" where
  "addAssumingCapacityIsReady_pack firstNewElement [] s =
     addAssumingCapacityIsReady firstNewElement s"
| "addAssumingCapacityIsReady_pack firstNewElement (e # otherElements) s =
     addAssumingCapacityIsReady_pack e otherElements (addAssumingCapacityIsReady firstNewElement s)"

definition add :: "ElementTraits \<Rightarrow> 'a \<Rightarrow> 'a ArrayBase \<Rightarrow> 'a ArrayBase" where
  "add tr newElement s =
     addAssumingCapacityIsReady newElement (ensureAllocatedSize tr (int32 (numUsed s + 1)) s)"

definition add_pack :: "ElementTraits \<Rightarrow> 'a \<Rightarrow> 'a list \<Rightarrow> 'a ArrayBase \<Rightarrow> 'a ArrayBase" where
  "add_pack tr firstNewElement otherElements s =
     addAssumingCapacityIsReady_pack firstNewElement otherElements
       (ensureAllocatedSize tr (int32 (numUsed s + 1 + int (length otherElements))) s)"

text \<open>
  The loop of the two element-wise \<^verbatim>\<open>addArrayInternal\<close>s:
  \<^verbatim>\<open>while (--numElements >= 0) new (start++) ElementType (*(otherElements++));\<close>
  The source pointer is \<open>otherElements\<close> advanced by \<open>k\<close>.
\<close>

function addArrayInternal_loop ::
  "int \<Rightarrow> int \<Rightarrow> (int \<Rightarrow> 'a slot) \<Rightarrow> int \<Rightarrow> 'a ArrayBase \<Rightarrow> 'a ArrayBase" where
  "addArrayInternal_loop numElements start otherElements k s =
     (if int32 (numElements - 1) \<ge> 0
      then addArrayInternal_loop (int32 (numElements - 1)) (start + 1) otherElements (k + 1)
             (construct start (otherElements k) s)
      else s)"
  by pat_completeness auto
termination
proof (relation "measure (\<lambda>(numElements, start, otherElements, k, s).
         if 0 \<le> numElements \<and> numElements \<le> 2147483647 then nat numElements else 2147483648)")
  show "wf (measure (\<lambda>(numElements, start, otherElements, k, s).
         if 0 \<le> numElements \<and> numElements \<le> 2147483647 then nat numElements else 2147483648))"
    by simp
next
  fix numElements start k :: int and otherElements :: "int \<Rightarrow> 'a slot" and s :: "'a ArrayBase"
  assume a: "0 \<le> int32 (numElements - 1)"
  show "((int32 (numElements - 1), start + 1, otherElements, k + 1,
           construct start (otherElements k) s),
          (numElements, start, otherElements, k, s))
     \<in> measure (\<lambda>(numElements, start, otherElements, k, s).
         if 0 \<le> numElements \<and> numElements \<le> 2147483647 then nat numElements else 2147483648)"
  proof (cases "0 \<le> numElements \<and> numElements \<le> 2147483647")
    case True
    with a have nz: "numElements \<noteq> 0" by (auto simp: int32_def)
    with True have "int32 (numElements - 1) = numElements - 1"
      unfolding int32_def by (intro signed_take_bit_int_eq_self) auto
    with True nz show ?thesis by auto
  next
    case False
    with a signed_take_bit_int_less_exp [of 31 "numElements - 1"] show ?thesis
      by (auto simp: int32_def)
  qed
qed

declare addArrayInternal_loop.simps [simp del]

text \<open>
  \<open>sameType\<close> says whether the source's element type is \<^verbatim>\<open>ElementType\<close> itself: only then,
  and for a trivially copyable type, overload resolution picks the \<^verbatim>\<open>memcpy\<close> variant.
\<close>

definition addArrayInternal ::
  "ElementTraits \<Rightarrow> bool \<Rightarrow> (int \<Rightarrow> 'a slot) \<Rightarrow> int \<Rightarrow> 'a ArrayBase \<Rightarrow> 'a ArrayBase" where
  "addArrayInternal tr sameType otherElements numElements s =
     (if is_trivially_copyable tr \<and> sameType
      then memcpy_in (numUsed s) otherElements numElements s
      else addArrayInternal_loop numElements (numUsed s) otherElements 0 s)"

text \<open>\<^verbatim>\<open>addArray (const Type* elementsToAdd, int numElementsToAdd)\<close>\<close>

definition addArray ::
  "ElementTraits \<Rightarrow> bool \<Rightarrow> (int \<Rightarrow> 'a slot) \<Rightarrow> int \<Rightarrow> 'a ArrayBase \<Rightarrow> 'a ArrayBase" where
  "addArray tr sameType elementsToAdd numElementsToAdd s =
     (let s1 = ensureAllocatedSize tr (int32 (numUsed s + numElementsToAdd)) s;
          s2 = addArrayInternal tr sameType elementsToAdd numElementsToAdd s1
      in s2\<lparr>numUsed := int32 (numUsed s2 + numElementsToAdd)\<rparr>)"

text \<open>
  \<^verbatim>\<open>addArray (const std::initializer_list<TypeToCreateFrom>& items)\<close> and
  \<^verbatim>\<open>addArray (const OtherArrayType& arrayToAddFrom)\<close>: one reservation, then one construction
  at \<^verbatim>\<open>elements + numUsed++\<close> per item, in iteration order.
\<close>

fun addArray_each :: "'a list \<Rightarrow> 'a ArrayBase \<Rightarrow> 'a ArrayBase" where
  "addArray_each [] s = s"
| "addArray_each (item # items) s = addArray_each items (addAssumingCapacityIsReady item s)"

definition addArray_items :: "ElementTraits \<Rightarrow> 'a list \<Rightarrow> 'a ArrayBase \<Rightarrow> 'a ArrayBase" where
  "addArray_items tr items s =
     addArray_each items (ensureAllocatedSize tr (int32 (numUsed s + int32 (int (length items)))) s)"

text \<open>
  \<^verbatim>\<open>addArray (const OtherArrayType& arrayToAddFrom, int startIndex, int numElementsToAdd = -1)\<close>;
  returns the number of elements added. \<^verbatim>\<open>jassertfalse\<close> only reports.
\<close>

definition addArray_range ::
  "ElementTraits \<Rightarrow> bool \<Rightarrow> 'a list \<Rightarrow> int \<Rightarrow> int \<Rightarrow> 'a ArrayBase \<Rightarrow> int \<times> 'a ArrayBase" where
  "addArray_range tr sameType arrayToAddFrom startIndex numElementsToAdd s =
     (let startIndex' = (if startIndex < 0 then 0 else startIndex);
          numElementsToAdd' =
            (if numElementsToAdd < 0
                \<or> int32 (startIndex' + numElementsToAdd) > int32 (int (length arrayToAddFrom))
             then int32 (int32 (int (length arrayToAddFrom)) - startIndex')
             else numElementsToAdd)
      in (numElementsToAdd',
          addArray tr sameType (\<lambda>k. read_src arrayToAddFrom (startIndex' + k)) numElementsToAdd' s))"

subsection \<open>insert and insertArray\<close>

text \<open>
  The non-trivially-copyable \<^verbatim>\<open>createInsertSpaceInternal\<close>:
  \<^verbatim>\<open>for (int i = 0; i < numElementsToShift; ++i) { new (--newEnd) ElementType (std::move (*(--end)));
  end->~ElementType(); }\<close>
\<close>

function createInsertSpaceInternal_loop ::
  "int \<Rightarrow> int \<Rightarrow> int \<Rightarrow> int \<Rightarrow> 'a ArrayBase \<Rightarrow> 'a ArrayBase" where
  "createInsertSpaceInternal_loop i numElementsToShift endp newEnd s =
     (if i < numElementsToShift
      then createInsertSpaceInternal_loop (i + 1) numElementsToShift (endp - 1) (newEnd - 1)
             (destroy (endp - 1) (move_construct (newEnd - 1) (endp - 1) s))
      else s)"
  by pat_completeness auto
termination
  by (relation "measure (\<lambda>(i, numElementsToShift, endp, newEnd, s). nat (numElementsToShift - i))")
     auto

declare createInsertSpaceInternal_loop.simps [simp del]

definition createInsertSpaceInternal ::
  "ElementTraits \<Rightarrow> int \<Rightarrow> int \<Rightarrow> 'a ArrayBase \<Rightarrow> 'a ArrayBase" where
  "createInsertSpaceInternal tr indexToInsertAt numElements s =
     (if is_trivially_copyable tr
      then (let start = indexToInsertAt;
                numElementsToShift = numUsed s - indexToInsertAt
            in memmove (start + numElements) start numElementsToShift s)
      else (let endp = numUsed s;
                newEnd = endp + numElements;
                numElementsToShift = numUsed s - indexToInsertAt
            in createInsertSpaceInternal_loop 0 numElementsToShift endp newEnd s))"

text \<open>Returns the pointer to the opened space, as an offset into the block.\<close>

definition createInsertSpace ::
  "ElementTraits \<Rightarrow> int \<Rightarrow> int \<Rightarrow> 'a ArrayBase \<Rightarrow> int \<times> 'a ArrayBase" where
  "createInsertSpace tr indexToInsertAt numElements s =
     (let s1 = ensureAllocatedSize tr (int32 (numUsed s + numElements)) s
      in if \<not> isPositiveAndBelow indexToInsertAt (numUsed s1) then (numUsed s1, s1)
         else (indexToInsertAt, createInsertSpaceInternal tr indexToInsertAt numElements s1))"

text \<open>
  \<^verbatim>\<open>for (int i = 0; i < numberOfTimesToInsertIt; ++i) new (space++) ElementType (newElement);\<close>
  The argument is the value the caller passes; a reference to an element of the container
  itself, which a reallocation would leave dangling, is outside the model.
\<close>

function insert_loop :: "int \<Rightarrow> int \<Rightarrow> int \<Rightarrow> 'a \<Rightarrow> 'a ArrayBase \<Rightarrow> 'a ArrayBase" where
  "insert_loop i numberOfTimesToInsertIt space newElement s =
     (if i < numberOfTimesToInsertIt
      then insert_loop (i + 1) numberOfTimesToInsertIt (space + 1) newElement
             (construct space (Obj newElement) s)
      else s)"
  by pat_completeness auto
termination
  by (relation "measure (\<lambda>(i, n, space, newElement, s). nat (n - i))") auto

declare insert_loop.simps [simp del]

definition insert_arr :: "ElementTraits \<Rightarrow> int \<Rightarrow> 'a \<Rightarrow> int \<Rightarrow> 'a ArrayBase \<Rightarrow> 'a ArrayBase" where
  "insert_arr tr indexToInsertAt newElement numberOfTimesToInsertIt s =
     (case createInsertSpace tr indexToInsertAt numberOfTimesToInsertIt s of
        (space, s1) \<Rightarrow>
          (let s2 = insert_loop 0 numberOfTimesToInsertIt space newElement s1
           in s2\<lparr>numUsed := int32 (numUsed s2 + numberOfTimesToInsertIt)\<rparr>))"

text \<open>\<^verbatim>\<open>for (int i = 0; i < numberOfElements; ++i) new (space++) ElementType (*(newElements++));\<close>\<close>

function insertArray_loop ::
  "int \<Rightarrow> int \<Rightarrow> int \<Rightarrow> (int \<Rightarrow> 'a slot) \<Rightarrow> int \<Rightarrow> 'a ArrayBase \<Rightarrow> 'a ArrayBase" where
  "insertArray_loop i numberOfElements space newElements k s =
     (if i < numberOfElements
      then insertArray_loop (i + 1) numberOfElements (space + 1) newElements (k + 1)
             (construct space (newElements k) s)
      else s)"
  by pat_completeness auto
termination
  by (relation "measure (\<lambda>(i, n, space, newElements, k, s). nat (n - i))") auto

declare insertArray_loop.simps [simp del]

definition insertArray ::
  "ElementTraits \<Rightarrow> int \<Rightarrow> (int \<Rightarrow> 'a slot) \<Rightarrow> int \<Rightarrow> 'a ArrayBase \<Rightarrow> 'a ArrayBase" where
  "insertArray tr indexToInsertAt newElements numberOfElements s =
     (case createInsertSpace tr indexToInsertAt numberOfElements s of
        (space, s1) \<Rightarrow>
          (let s2 = insertArray_loop 0 numberOfElements space newElements 0 s1
           in s2\<lparr>numUsed := int32 (numUsed s2 + numberOfElements)\<rparr>))"

subsection \<open>removeElements\<close>

text \<open>\<^verbatim>\<open>moveAssignElement (destination, std::move (*source))\<close> between two slots of the block.\<close>

definition moveAssignElement_at ::
  "ElementTraits \<Rightarrow> int \<Rightarrow> int \<Rightarrow> 'a ArrayBase \<Rightarrow> 'a ArrayBase" where
  "moveAssignElement_at tr destination source s =
     moved_out source (moveAssignElement tr destination (elements s source) s)"

text \<open>
  The two loops of the non-trivially-copyable \<^verbatim>\<open>removeElementsInternal\<close>; the first
  hands its \<^verbatim>\<open>destination\<close> pointer on to the second:
  \<^verbatim>\<open>for (int i = 0; i < numElementsToShift; ++i) moveAssignElement (destination++, std::move (*(source++)));\<close>
  \<^verbatim>\<open>for (int i = 0; i < numElementsToRemove; ++i) (destination++)->~ElementType();\<close>
\<close>

function removeElementsInternal_shift ::
  "ElementTraits \<Rightarrow> int \<Rightarrow> int \<Rightarrow> int \<Rightarrow> int \<Rightarrow> 'a ArrayBase \<Rightarrow> int \<times> 'a ArrayBase" where
  "removeElementsInternal_shift tr i numElementsToShift destination source s =
     (if i < numElementsToShift
      then removeElementsInternal_shift tr (i + 1) numElementsToShift (destination + 1) (source + 1)
             (moveAssignElement_at tr destination source s)
      else (destination, s))"
  by pat_completeness auto
termination
  by (relation "measure (\<lambda>(tr, i, numElementsToShift, destination, source, s).
                           nat (numElementsToShift - i))") auto

declare removeElementsInternal_shift.simps [simp del]

function removeElementsInternal_destroy ::
  "int \<Rightarrow> int \<Rightarrow> int \<Rightarrow> 'a ArrayBase \<Rightarrow> 'a ArrayBase" where
  "removeElementsInternal_destroy i numElementsToRemove destination s =
     (if i < numElementsToRemove
      then removeElementsInternal_destroy (i + 1) numElementsToRemove (destination + 1)
             (destroy destination s)
      else s)"
  by pat_completeness auto
termination
  by (relation "measure (\<lambda>(i, numElementsToRemove, destination, s). nat (numElementsToRemove - i))")
     auto

declare removeElementsInternal_destroy.simps [simp del]

definition removeElementsInternal ::
  "ElementTraits \<Rightarrow> int \<Rightarrow> int \<Rightarrow> 'a ArrayBase \<Rightarrow> 'a ArrayBase" where
  "removeElementsInternal tr indexToRemoveAt numElementsToRemove s =
     (if is_trivially_copyable tr
      then (let start = indexToRemoveAt;
                numElementsToShift = int32 (numUsed s - int32 (indexToRemoveAt + numElementsToRemove))
            in memmove start (start + numElementsToRemove) numElementsToShift s)
      else (let numElementsToShift = int32 (numUsed s - int32 (indexToRemoveAt + numElementsToRemove));
                destination = indexToRemoveAt;
                source = destination + numElementsToRemove
            in (case removeElementsInternal_shift tr 0 numElementsToShift destination source s of
                  (destination', s1) \<Rightarrow>
                    removeElementsInternal_destroy 0 numElementsToRemove destination' s1)))"

text \<open>
  The three \<^verbatim>\<open>jassert\<close>s state the precondition
  \<^verbatim>\<open>indexToRemoveAt >= 0\<close>, \<^verbatim>\<open>numElementsToRemove >= 0\<close>,
  \<^verbatim>\<open>indexToRemoveAt + numElementsToRemove <= numUsed\<close>.
\<close>

definition removeElements_precondition :: "int \<Rightarrow> int \<Rightarrow> 'a ArrayBase \<Rightarrow> bool" where
  "removeElements_precondition indexToRemoveAt numElementsToRemove s =
     (indexToRemoveAt \<ge> 0 \<and> numElementsToRemove \<ge> 0
      \<and> indexToRemoveAt + numElementsToRemove \<le> numUsed s)"

definition removeElements :: "ElementTraits \<Rightarrow> int \<Rightarrow> int \<Rightarrow> 'a ArrayBase \<Rightarrow> 'a ArrayBase" where
  "removeElements tr indexToRemoveAt numElementsToRemove s =
     (if numElementsToRemove > 0
      then (let s1 = removeElementsInternal tr indexToRemoveAt numElementsToRemove s
            in s1\<lparr>numUsed := int32 (numUsed s1 - numElementsToRemove)\<rparr>)
      else s)"

subsection \<open>swap and move\<close>

text \<open>\<^verbatim>\<open>std::swap (elements[index1], elements[index2])\<close> exchanges the two objects.\<close>

definition swap :: "int \<Rightarrow> int \<Rightarrow> 'a ArrayBase \<Rightarrow> 'a ArrayBase" where
  "swap index1 index2 s =
     (if isPositiveAndBelow index1 (numUsed s) \<and> isPositiveAndBelow index2 (numUsed s)
      then s\<lparr>elements := (elements s)(index1 := elements s index2, index2 := elements s index1)\<rparr>
      else s)"

text \<open>
  The two loops of the non-trivially-copyable \<^verbatim>\<open>moveInternal\<close>; each returns the pointer
  \<^verbatim>\<open>e\<close> it has advanced:
  \<^verbatim>\<open>for (int i = 0; i < delta; ++i) { moveAssignElement (e, std::move (*(e + 1))); ++e; }\<close>
  \<^verbatim>\<open>for (int i = 0; i < -delta; ++i) { moveAssignElement (e, std::move (*(e - 1))); --e; }\<close>
\<close>

function moveInternal_up ::
  "ElementTraits \<Rightarrow> int \<Rightarrow> int \<Rightarrow> int \<Rightarrow> 'a ArrayBase \<Rightarrow> int \<times> 'a ArrayBase" where
  "moveInternal_up tr i delta e s =
     (if i < delta
      then moveInternal_up tr (i + 1) delta (e + 1) (moveAssignElement_at tr e (e + 1) s)
      else (e, s))"
  by pat_completeness auto
termination
  by (relation "measure (\<lambda>(tr, i, delta, e, s). nat (delta - i))") auto

declare moveInternal_up.simps [simp del]

function moveInternal_down ::
  "ElementTraits \<Rightarrow> int \<Rightarrow> int \<Rightarrow> int \<Rightarrow> 'a ArrayBase \<Rightarrow> int \<times> 'a ArrayBase" where
  "moveInternal_down tr i delta e s =
     (if i < - delta
      then moveInternal_down tr (i + 1) delta (e - 1) (moveAssignElement_at tr e (e - 1) s)
      else (e, s))"
  by pat_completeness auto
termination
  by (relation "measure (\<lambda>(tr, i, delta, e, s). nat (- delta - i))") auto

declare moveInternal_down.simps [simp del]

definition moveInternal :: "ElementTraits \<Rightarrow> int \<Rightarrow> int \<Rightarrow> 'a ArrayBase \<Rightarrow> 'a ArrayBase" where
  "moveInternal tr currentIndex newIndex s =
     (if is_trivially_copyable tr
      then (let tempCopy = elements s currentIndex;
                s1 = (if newIndex > currentIndex
                      then memmove currentIndex (currentIndex + 1) (newIndex - currentIndex) s
                      else memmove (newIndex + 1) newIndex (currentIndex - newIndex) s)
            in construct newIndex tempCopy s1)
      else (let e = currentIndex;
                tempCopy = elements s e;
                s0 = moved_out e s;
                delta = newIndex - currentIndex
            in (case (if delta > 0 then moveInternal_up tr 0 delta e s0
                      else moveInternal_down tr 0 delta e s0) of
                  (e', s1) \<Rightarrow> moveAssignElement tr e' tempCopy s1)))"

definition move :: "ElementTraits \<Rightarrow> int \<Rightarrow> int \<Rightarrow> 'a ArrayBase \<Rightarrow> 'a ArrayBase" where
  "move tr currentIndex newIndex s =
     (if isPositiveAndBelow currentIndex (numUsed s)
      then (let newIndex' = (if \<not> isPositiveAndBelow newIndex (numUsed s) then numUsed s - 1
                             else newIndex)
            in moveInternal tr currentIndex newIndex' s)
      else s)"

subsection \<open>operator==\<close>

text \<open>
  \<^verbatim>\<open>*e++ == o\<close>, with \<open>eq\<close> the element types' \<^verbatim>\<open>operator==\<close>. Comparing a slot that holds
  no object with a value has no defined result in C++; the model reports it as unequal.
\<close>

fun slot_eq :: "('a \<Rightarrow> 'b \<Rightarrow> bool) \<Rightarrow> 'a slot \<Rightarrow> 'b slot \<Rightarrow> bool" where
  "slot_eq eq (Obj x) (Obj y) = eq x y"
| "slot_eq eq _ _ = False"

text \<open>
  \<^verbatim>\<open>for (auto& o : other) if (! (*e++ == o)) return false;\<close> over the elements \<open>other\<close>
  yields; the second component is the pointer \<^verbatim>\<open>e\<close> at the moment of returning, so that
  \<open>e - begin()\<close> counts the comparisons made.
\<close>

fun operator_eq_loop ::
  "('a \<Rightarrow> 'b \<Rightarrow> bool) \<Rightarrow> (int \<Rightarrow> 'a slot) \<Rightarrow> int \<Rightarrow> 'b slot list \<Rightarrow> bool \<times> int" where
  "operator_eq_loop eq elems e [] = (True, e)"
| "operator_eq_loop eq elems e (o' # others) =
     (if \<not> slot_eq eq (elems e) o' then (False, e + 1)
      else operator_eq_loop eq elems (e + 1) others)"

text \<open>The other container is any type with \<^verbatim>\<open>size()\<close>, \<^verbatim>\<open>begin()\<close> and \<^verbatim>\<open>end()\<close>; here it
  is another \<^verbatim>\<open>ArrayBase\<close>, of any element type.\<close>

definition operator_eq :: "('a \<Rightarrow> 'b \<Rightarrow> bool) \<Rightarrow> 'a ArrayBase \<Rightarrow> 'b ArrayBase \<Rightarrow> bool" where
  "operator_eq eq s other =
     (if size_arr s \<noteq> size_arr other then False
      else fst (operator_eq_loop eq (elements s) 0 (contents other)))"

definition operator_neq :: "('a \<Rightarrow> 'b \<Rightarrow> bool) \<Rightarrow> 'a ArrayBase \<Rightarrow> 'b ArrayBase \<Rightarrow> bool" where
  "operator_neq eq s other = (\<not> operator_eq eq s other)"

subsection \<open>Well-formed containers, sample element types, the spec's vocabulary\<close>

text \<open>
  The class invariant, with both counters \<^verbatim>\<open>int\<close>s: \<open>0 \<le> numUsed \<le> numAllocated \<le> INT_MAX\<close>.
  \<open>holds s xs\<close>: the container is well formed and its live range \<open>[0, numUsed)\<close> holds
  constructed objects with the values \<open>xs\<close>, in this order.
\<close>

definition well_formed :: "'a ArrayBase \<Rightarrow> bool" where
  "well_formed s = (0 \<le> numUsed s \<and> numUsed s \<le> numAllocated s \<and> numAllocated s \<le> INT_MAX)"

definition holds :: "'a ArrayBase \<Rightarrow> 'a list \<Rightarrow> bool" where
  "holds s xs = (well_formed s \<and> contents s = map Obj xs)"

text \<open>
  \<open>can_hold s n\<close>: a request for \<open>n\<close> more elements stays within \<^verbatim>\<open>int\<close>: they fit into the
  present capacity, or the capacity \<^verbatim>\<open>ensureAllocatedSize\<close> computes for \<open>numUsed + n\<close> does
  not exceed \<open>INT_MAX\<close>.
\<close>

definition can_hold :: "'a ArrayBase \<Rightarrow> int \<Rightarrow> bool" where
  "can_hold s n =
     (numUsed s + n \<le> numAllocated s
      \<or> (numUsed s + n) + (numUsed s + n) div 2 + 8 \<le> INT_MAX)"

text \<open>
  Three instantiations of \<^verbatim>\<open>ElementType\<close>: a trivially copyable one (\<^verbatim>\<open>int\<close>), one with
  its own copy and move operations (\<^verbatim>\<open>String\<close>), and one that can be move-constructed but not
  assigned.
\<close>

definition trivial_type :: ElementTraits where
  "trivial_type = \<lparr>is_trivially_copyable = True, is_move_assignable = True\<rparr>"

definition class_type :: ElementTraits where
  "class_type = \<lparr>is_trivially_copyable = False, is_move_assignable = True\<rparr>"

definition unassignable_type :: ElementTraits where
  "unassignable_type = \<lparr>is_trivially_copyable = False, is_move_assignable = False\<rparr>"

text \<open>
  The spec's \<open>round_up_to_multiple_of_8\<close>, from its words: the least multiple of 8 that is not
  below the argument.
\<close>

definition round_up_to_multiple_of_8 :: "int \<Rightarrow> int" where
  "round_up_to_multiple_of_8 x = 8 * ((x + 7) div 8)"

subsection \<open>Sequences of operations\<close>

text \<open>
  The mutating members of the public interface as a datatype, for statements about every
  sequence of calls. A caller's array is a list; \<open>AddArray\<close> and \<open>InsertArray\<close> pass a pointer to
  its first element together with a count, \<open>AddArrayItems\<close> stands for the overloads taking an
  \<^verbatim>\<open>initializer_list\<close> or another array, \<open>AddArrayRange\<close> for the overload with
  \<^verbatim>\<open>startIndex\<close> and \<^verbatim>\<open>numElementsToAdd\<close>.
\<close>

datatype 'a operation =
    Add 'a
  | AddPack 'a "'a list"
  | AddArray bool "'a list" int
  | AddArrayItems "'a list"
  | AddArrayRange bool "'a list" int int
  | Insert int 'a int
  | InsertArray int "'a list" int
  | RemoveElements int int
  | Swap int int
  | Move int int
  | Clear
  | EnsureAllocatedSize int
  | SetAllocatedSize int
  | ShrinkToNoMoreThan int

fun perform :: "ElementTraits \<Rightarrow> 'a operation \<Rightarrow> 'a ArrayBase \<Rightarrow> 'a ArrayBase" where
  "perform tr (Add x) s = add tr x s"
| "perform tr (AddPack x xs) s = add_pack tr x xs s"
| "perform tr (AddArray sameType xs n) s = addArray tr sameType (read_src xs) n s"
| "perform tr (AddArrayItems xs) s = addArray_items tr xs s"
| "perform tr (AddArrayRange sameType xs startIndex n) s =
     snd (addArray_range tr sameType xs startIndex n s)"
| "perform tr (Insert at x n) s = insert_arr tr at x n s"
| "perform tr (InsertArray at xs n) s = insertArray tr at (read_src xs) n s"
| "perform tr (RemoveElements at n) s = removeElements tr at n s"
| "perform tr (Swap i j) s = swap i j s"
| "perform tr (Move i j) s = move tr i j s"
| "perform tr Clear s = clear s"
| "perform tr (EnsureAllocatedSize n) s = ensureAllocatedSize tr n s"
| "perform tr (SetAllocatedSize n) s = setAllocatedSize tr n s"
| "perform tr (ShrinkToNoMoreThan n) s = shrinkToNoMoreThan tr n s"

text \<open>The states after each operation of a sequence, in order.\<close>

fun run :: "ElementTraits \<Rightarrow> 'a operation list \<Rightarrow> 'a ArrayBase \<Rightarrow> 'a ArrayBase list" where
  "run tr [] s = []"
| "run tr (x # ops) s = perform tr x s # run tr ops (perform tr x s)"

text \<open>
  The arguments under which a call keeps to the contract the source documents: counts are not
  negative, the request stays within \<^verbatim>\<open>int\<close> (\<open>can_hold\<close>), \<^verbatim>\<open>removeElements\<close> and
  \<^verbatim>\<open>setAllocatedSize\<close> meet their \<^verbatim>\<open>jassert\<close>s (the latter also when reached through
  \<^verbatim>\<open>shrinkToNoMoreThan\<close>), and a range of another array lies inside that array.
\<close>

fun admissible :: "'a operation \<Rightarrow> 'a ArrayBase \<Rightarrow> bool" where
  "admissible (Add x) s = can_hold s 1"
| "admissible (AddPack x xs) s = can_hold s (1 + int (length xs))"
| "admissible (AddArray sameType xs n) s = (0 \<le> n \<and> can_hold s n)"
| "admissible (AddArrayItems xs) s = can_hold s (int (length xs))"
| "admissible (AddArrayRange sameType xs startIndex n) s =
     (let start = max 0 startIndex; size = int (length xs)
      in start \<le> size \<and> size \<le> INT_MAX \<and> (n < 0 \<or> start + n \<le> INT_MAX)
         \<and> can_hold s (if n < 0 \<or> start + n > size then size - start else n))"
| "admissible (Insert at x n) s = (0 \<le> n \<and> can_hold s n)"
| "admissible (InsertArray at xs n) s = (0 \<le> n \<and> can_hold s n)"
| "admissible (RemoveElements at n) s = removeElements_precondition at n s"
| "admissible (Swap i j) s = True"
| "admissible (Move i j) s = True"
| "admissible Clear s = True"
| "admissible (EnsureAllocatedSize n) s = (n \<le> numAllocated s \<or> n + n div 2 + 8 \<le> INT_MAX)"
| "admissible (SetAllocatedSize n) s = (numUsed s \<le> n \<and> n \<le> INT_MAX)"
| "admissible (ShrinkToNoMoreThan n) s = (numUsed s \<le> n)"

fun admissible_run :: "ElementTraits \<Rightarrow> 'a operation list \<Rightarrow> 'a ArrayBase \<Rightarrow> bool" where
  "admissible_run tr [] s = True"
| "admissible_run tr (x # ops) s = (admissible x s \<and> admissible_run tr ops (perform tr x s))"

text \<open>
  The spec's \<open>move_element\<close> on a sequence, from its words: ``relocates exactly one element to
  a new index'': the element at \<open>from\<close> is taken out and put back so that it stands at index
  \<open>to\<close>.
\<close>

definition list_move :: "'a list \<Rightarrow> nat \<Rightarrow> nat \<Rightarrow> 'a list" where
  "list_move xs from to =
     (let rest = take from xs @ drop (Suc from) xs
      in take to rest @ [xs ! from] @ drop to rest)"

text \<open>
  An element type whose \<^verbatim>\<open>operator==\<close> is not reflexive, as that of \<^verbatim>\<open>float\<close> is not: \<open>None\<close>
  stands for a NaN, which compares unequal to every value, itself included.
\<close>

definition float_eq :: "int option \<Rightarrow> int option \<Rightarrow> bool" where
  "float_eq x y = (case (x, y) of (Some a, Some b) \<Rightarrow> a = b | _ \<Rightarrow> False)"

section \<open>Verification\<close>

subsection \<open>Arithmetic of \<open>int32\<close>\<close>

lemma int32_id: "is_int x \<Longrightarrow> int32 x = x"
  unfolding int32_def is_int_def INT_MIN_def INT_MAX_def
  by (simp add: signed_take_bit_int_eq_self)

lemma is_int_int32: "is_int (int32 x)"
  using signed_take_bit_int_greater_eq_minus_exp [of 31 x] signed_take_bit_int_less_exp [of 31 x]
  by (simp add: int32_def is_int_def INT_MIN_def INT_MAX_def)

lemma and_not_mask_int: "(x::int) AND NOT (mask n) = x - take_bit n x"
proof -
  have "x - take_bit n x = x AND NOT (take_bit n x)"
    by (rule disjunctive_diff) (simp add: bit_simps)
  also have "\<dots> = x AND NOT (mask n)"
    by (rule bit_eqI) (auto simp add: bit_simps)
  finally show ?thesis by simp
qed

lemma and_not_7: "(x::int) AND NOT 7 = x - x mod 8"
  using and_not_mask_int [of x 3] by (simp add: mask_eq_exp_minus_1 take_bit_eq_mod)

lemma and_minus_8: "(x::int) AND - 8 = x - x mod 8"
  using and_not_7 [of x] by simp

lemma sdiv_2_nonneg: "0 \<le> m \<Longrightarrow> m sdiv 2 = m div (2::int)"
  by (simp add: signed_divide_int_def sgn_if)

text \<open>The capacity \<^verbatim>\<open>ensureAllocatedSize\<close> asks for.\<close>

lemma grown_size:
  assumes "0 \<le> m" "m + m div 2 + 8 \<le> INT_MAX"
  shows "int32 (m + m sdiv 2 + 8) AND NOT 7 = 8 * ((m + m div 2 + 8) div 8)"
proof -
  have "is_int (m + m div 2 + 8)"
    using assms by (simp add: is_int_def INT_MIN_def)
  then have "int32 (m + m sdiv 2 + 8) = m + m div 2 + 8"
    using assms by (simp add: sdiv_2_nonneg int32_id)
  moreover have "x - x mod 8 = 8 * (x div 8)" for x :: int
    by (simp add: minus_mod_eq_mult_div)
  ultimately show ?thesis
    by (simp only: and_not_7)
qed

subsection \<open>Fields after the element primitives\<close>

lemma destroy_fields [simp]:
  "numUsed (destroy p s) = numUsed s"
  "numAllocated (destroy p s) = numAllocated s"
  "elements (destroy p s) = (elements s)(p := Raw)"
  "destroyed (destroy p s) = destroyed s @ [p]"
  by (simp_all add: destroy_def)

lemma construct_fields [simp]:
  "numUsed (construct p x s) = numUsed s"
  "numAllocated (construct p x s) = numAllocated s"
  "elements (construct p x s) = (elements s)(p := x)"
  "destroyed (construct p x s) = destroyed s"
  by (simp_all add: construct_def)

lemma moved_out_fields [simp]:
  "numUsed (moved_out p s) = numUsed s"
  "numAllocated (moved_out p s) = numAllocated s"
  "elements (moved_out p s) = (elements s)(p := residue (elements s p))"
  "destroyed (moved_out p s) = destroyed s"
  by (simp_all add: moved_out_def)

lemma move_construct_fields [simp]:
  "numUsed (move_construct dst src s) = numUsed s"
  "numAllocated (move_construct dst src s) = numAllocated s"
  "destroyed (move_construct dst src s) = destroyed s"
  by (simp_all add: move_construct_def)

lemma moveAssignElement_fields [simp]:
  "numUsed (moveAssignElement tr d x s) = numUsed s"
  "numAllocated (moveAssignElement tr d x s) = numAllocated s"
  "elements (moveAssignElement tr d x s) = (elements s)(d := x)"
  by (simp_all add: moveAssignElement_def)

lemma moveAssignElement_at_fields [simp]:
  "numUsed (moveAssignElement_at tr d src s) = numUsed s"
  "numAllocated (moveAssignElement_at tr d src s) = numAllocated s"
  by (simp_all add: moveAssignElement_at_def)

lemma memmove_fields [simp]:
  "numUsed (memmove d src n s) = numUsed s"
  "numAllocated (memmove d src n s) = numAllocated s"
  "destroyed (memmove d src n s) = destroyed s"
  by (simp_all add: memmove_def)

lemma memcpy_in_fields [simp]:
  "numUsed (memcpy_in d from n s) = numUsed s"
  "numAllocated (memcpy_in d from n s) = numAllocated s"
  "destroyed (memcpy_in d from n s) = destroyed s"
  by (simp_all add: memcpy_in_def)

subsection \<open>Capacity manager\<close>

lemma setAllocatedSizeInternal_loop_sizes:
  "numUsed (snd (setAllocatedSizeInternal_loop i new s)) = numUsed s
   \<and> numAllocated (snd (setAllocatedSizeInternal_loop i new s)) = numAllocated s"
proof (induction i new s rule: setAllocatedSizeInternal_loop.induct)
  case (1 i newElements s)
  show ?case
    using "1.IH" by (subst (1 2) setAllocatedSizeInternal_loop.simps) (simp add: fun_upd_def)
qed

lemma setAllocatedSizeInternal_sizes [simp]:
  "numUsed (setAllocatedSizeInternal tr n s) = numUsed s"
  "numAllocated (setAllocatedSizeInternal tr n s) = numAllocated s"
  using setAllocatedSizeInternal_loop_sizes [of 0 "HeapBlock_new n" s]
  by (auto simp: setAllocatedSizeInternal_def split: prod.splits)

lemma setAllocatedSize_sizes [simp]:
  "numUsed (setAllocatedSize tr n s) = numUsed s"
  "numAllocated (setAllocatedSize tr n s) = n"
  by (simp_all add: setAllocatedSize_def Let_def)

lemma ensureAllocatedSize_numUsed [simp]:
  "numUsed (ensureAllocatedSize tr m s) = numUsed s"
  by (simp add: ensureAllocatedSize_def)

lemma ensureAllocatedSize_numAllocated:
  "numAllocated (ensureAllocatedSize tr m s) =
     (if m > numAllocated s then int32 (m + m sdiv 2 + 8) AND NOT 7 else numAllocated s)"
  by (simp add: ensureAllocatedSize_def)

lemma shrinkToNoMoreThan_sizes [simp]:
  "numUsed (shrinkToNoMoreThan tr m s) = numUsed s"
  "numAllocated (shrinkToNoMoreThan tr m s) = min m (numAllocated s)"
  by (simp_all add: shrinkToNoMoreThan_def)

subsection \<open>The counters after each operation\<close>

lemma clear_loop_sizes:
  "numUsed (clear_loop i s) = numUsed s \<and> numAllocated (clear_loop i s) = numAllocated s"
proof (induction i s rule: clear_loop.induct)
  case (1 i s)
  show ?case
    using "1.IH" by (subst (1 2) clear_loop.simps) simp
qed

lemma clear_sizes [simp]:
  "numUsed (clear s) = 0"
  "numAllocated (clear s) = numAllocated s"
  by (simp_all add: clear_def clear_loop_sizes)

lemma addAssumingCapacityIsReady_sizes [simp]:
  "numUsed (addAssumingCapacityIsReady x s) = int32 (numUsed s + 1)"
  "numAllocated (addAssumingCapacityIsReady x s) = numAllocated s"
  by (simp_all add: addAssumingCapacityIsReady_def)

lemma addArrayInternal_loop_sizes:
  "numUsed (addArrayInternal_loop n start src k s) = numUsed s
   \<and> numAllocated (addArrayInternal_loop n start src k s) = numAllocated s"
proof (induction n start src k s rule: addArrayInternal_loop.induct)
  case (1 n start src k s)
  show ?case
    using "1.IH" by (subst (1 2) addArrayInternal_loop.simps) simp
qed

lemma addArrayInternal_sizes [simp]:
  "numUsed (addArrayInternal tr same src n s) = numUsed s"
  "numAllocated (addArrayInternal tr same src n s) = numAllocated s"
  by (simp_all add: addArrayInternal_def addArrayInternal_loop_sizes)

lemma createInsertSpaceInternal_loop_sizes:
  "numUsed (createInsertSpaceInternal_loop i k e ne s) = numUsed s
   \<and> numAllocated (createInsertSpaceInternal_loop i k e ne s) = numAllocated s"
proof (induction i k e ne s rule: createInsertSpaceInternal_loop.induct)
  case (1 i k e ne s)
  show ?case
    using "1.IH" by (subst (1 2) createInsertSpaceInternal_loop.simps) simp
qed

lemma createInsertSpaceInternal_sizes [simp]:
  "numUsed (createInsertSpaceInternal tr at n s) = numUsed s"
  "numAllocated (createInsertSpaceInternal tr at n s) = numAllocated s"
  by (simp_all add: createInsertSpaceInternal_def Let_def createInsertSpaceInternal_loop_sizes)

lemma createInsertSpace_sizes [simp]:
  "numUsed (snd (createInsertSpace tr at n s)) = numUsed s"
  "numAllocated (snd (createInsertSpace tr at n s))
     = numAllocated (ensureAllocatedSize tr (int32 (numUsed s + n)) s)"
  by (simp_all add: createInsertSpace_def Let_def)

lemma insert_loop_sizes:
  "numUsed (insert_loop i n space x s) = numUsed s
   \<and> numAllocated (insert_loop i n space x s) = numAllocated s"
proof (induction i n space x s rule: insert_loop.induct)
  case (1 i n space x s)
  show ?case
    using "1.IH" by (subst (1 2) insert_loop.simps) simp
qed

lemma insertArray_loop_sizes:
  "numUsed (insertArray_loop i n space src k s) = numUsed s
   \<and> numAllocated (insertArray_loop i n space src k s) = numAllocated s"
proof (induction i n space src k s rule: insertArray_loop.induct)
  case (1 i n space src k s)
  show ?case
    using "1.IH" by (subst (1 2) insertArray_loop.simps) simp
qed

lemma insert_arr_sizes [simp]:
  "numUsed (insert_arr tr at x n s) = int32 (numUsed s + n)"
  "numAllocated (insert_arr tr at x n s)
     = numAllocated (ensureAllocatedSize tr (int32 (numUsed s + n)) s)"
  by (simp_all add: insert_arr_def Let_def insert_loop_sizes case_prod_beta)

lemma insertArray_sizes [simp]:
  "numUsed (insertArray tr at src n s) = int32 (numUsed s + n)"
  "numAllocated (insertArray tr at src n s)
     = numAllocated (ensureAllocatedSize tr (int32 (numUsed s + n)) s)"
  by (simp_all add: insertArray_def Let_def insertArray_loop_sizes case_prod_beta)

lemma removeElementsInternal_shift_sizes:
  "numUsed (snd (removeElementsInternal_shift tr i k d src s)) = numUsed s
   \<and> numAllocated (snd (removeElementsInternal_shift tr i k d src s)) = numAllocated s"
proof (induction tr i k d src s rule: removeElementsInternal_shift.induct)
  case (1 tr i k d src s)
  show ?case
    using "1.IH" by (subst (1 2) removeElementsInternal_shift.simps) simp
qed

lemma removeElementsInternal_destroy_sizes:
  "numUsed (removeElementsInternal_destroy i n d s) = numUsed s
   \<and> numAllocated (removeElementsInternal_destroy i n d s) = numAllocated s"
proof (induction i n d s rule: removeElementsInternal_destroy.induct)
  case (1 i n d s)
  show ?case
    using "1.IH" by (subst (1 2) removeElementsInternal_destroy.simps) simp
qed

lemma removeElementsInternal_sizes [simp]:
  "numUsed (removeElementsInternal tr at n s) = numUsed s"
  "numAllocated (removeElementsInternal tr at n s) = numAllocated s"
  by (simp_all add: removeElementsInternal_def Let_def removeElementsInternal_destroy_sizes
        removeElementsInternal_shift_sizes case_prod_beta)

lemma removeElements_sizes [simp]:
  "numUsed (removeElements tr at n s) = (if n > 0 then int32 (numUsed s - n) else numUsed s)"
  "numAllocated (removeElements tr at n s) = numAllocated s"
  by (simp_all add: removeElements_def Let_def)

lemma swap_sizes [simp]:
  "numUsed (swap i j s) = numUsed s"
  "numAllocated (swap i j s) = numAllocated s"
  by (simp_all add: swap_def)

lemma moveInternal_up_sizes:
  "numUsed (snd (moveInternal_up tr i d e s)) = numUsed s
   \<and> numAllocated (snd (moveInternal_up tr i d e s)) = numAllocated s"
proof (induction tr i d e s rule: moveInternal_up.induct)
  case (1 tr i d e s)
  show ?case
    using "1.IH" by (subst (1 2) moveInternal_up.simps) simp
qed

lemma moveInternal_down_sizes:
  "numUsed (snd (moveInternal_down tr i d e s)) = numUsed s
   \<and> numAllocated (snd (moveInternal_down tr i d e s)) = numAllocated s"
proof (induction tr i d e s rule: moveInternal_down.induct)
  case (1 tr i d e s)
  show ?case
    using "1.IH" by (subst (1 2) moveInternal_down.simps) simp
qed

lemma moveInternal_sizes [simp]:
  "numUsed (moveInternal tr i j s) = numUsed s"
  "numAllocated (moveInternal tr i j s) = numAllocated s"
  by (simp_all add: moveInternal_def Let_def moveInternal_up_sizes moveInternal_down_sizes
        case_prod_beta)

lemma move_sizes [simp]:
  "numUsed (move tr i j s) = numUsed s"
  "numAllocated (move tr i j s) = numAllocated s"
  by (simp_all add: move_def Let_def)

lemma int32_add_left [simp]: "int32 (int32 a + b) = int32 (a + b)"
  unfolding int32_def
  by (metis signed_take_bit_add signed_take_bit_signed_take_bit min.idem)

lemma int32_add_right [simp]: "int32 (a + int32 b) = int32 (a + b)"
  using int32_add_left [of b a] by (simp add: add.commute)

lemma addAssumingCapacityIsReady_pack_numUsed [simp]:
  "numUsed (addAssumingCapacityIsReady_pack x xs s) = int32 (numUsed s + 1 + int (length xs))"
proof (induction xs arbitrary: x s)
  case Nil
  show ?case by simp
next
  case (Cons e xs)
  have "int32 (int32 (numUsed s + 1) + 1 + int (length xs))
          = int32 (int32 (numUsed s + 1) + (1 + int (length xs)))"
    by (simp add: add.assoc)
  also have "\<dots> = int32 (numUsed s + 1 + (1 + int (length xs)))"
    by (rule int32_add_left)
  finally show ?case
    by (simp add: Cons.IH add.assoc)
qed

lemma addAssumingCapacityIsReady_pack_numAllocated [simp]:
  "numAllocated (addAssumingCapacityIsReady_pack x xs s) = numAllocated s"
  by (induction xs arbitrary: x s) simp_all

lemma addArray_each_numUsed:
  "numUsed (addArray_each xs s)
     = (if xs = [] then numUsed s else int32 (numUsed s + int (length xs)))"
proof (induction xs arbitrary: s)
  case Nil
  show ?case by simp
next
  case (Cons e xs)
  have "int32 (int32 (numUsed s + 1) + int (length xs)) = int32 (numUsed s + 1 + int (length xs))"
    by (rule int32_add_left)
  then show ?case
    by (simp add: Cons.IH add.assoc)
qed

lemma addArray_each_numAllocated [simp]:
  "numAllocated (addArray_each xs s) = numAllocated s"
  by (induction xs arbitrary: s) simp_all

lemma add_sizes [simp]:
  "numUsed (add tr x s) = int32 (numUsed s + 1)"
  "numAllocated (add tr x s) = numAllocated (ensureAllocatedSize tr (int32 (numUsed s + 1)) s)"
  by (simp_all add: add_def)

lemma add_pack_sizes [simp]:
  "numUsed (add_pack tr x xs s) = int32 (numUsed s + 1 + int (length xs))"
  "numAllocated (add_pack tr x xs s)
     = numAllocated (ensureAllocatedSize tr (int32 (numUsed s + 1 + int (length xs))) s)"
  by (simp_all add: add_pack_def)

lemma addArray_sizes [simp]:
  "numUsed (addArray tr same src n s) = int32 (numUsed s + n)"
  "numAllocated (addArray tr same src n s)
     = numAllocated (ensureAllocatedSize tr (int32 (numUsed s + n)) s)"
  by (simp_all add: addArray_def Let_def)

lemma addArray_items_sizes:
  "numUsed (addArray_items tr xs s)
     = (if xs = [] then numUsed s else int32 (numUsed s + int (length xs)))"
  "numAllocated (addArray_items tr xs s)
     = numAllocated (ensureAllocatedSize tr (int32 (numUsed s + int (length xs))) s)"
  by (simp_all add: addArray_items_def addArray_each_numUsed)

subsection \<open>The class invariant\<close>

lemma can_hold_is_int:
  assumes "well_formed s" "0 \<le> n" "can_hold s n"
  shows "is_int (numUsed s + n)"
proof -
  have "numUsed s + n \<le> INT_MAX"
    using assms unfolding can_hold_def well_formed_def by linarith
  with assms show ?thesis
    by (simp add: is_int_def INT_MIN_def well_formed_def)
qed

lemma ensure_room:
  assumes "well_formed s" "0 \<le> n" "can_hold s n"
  shows "numUsed s + n \<le> numAllocated (ensureAllocatedSize tr (numUsed s + n) s)
         \<and> numAllocated (ensureAllocatedSize tr (numUsed s + n) s) \<le> INT_MAX"
proof (cases "numUsed s + n \<le> numAllocated s")
  case True
  with assms show ?thesis
    by (simp add: ensureAllocatedSize_numAllocated well_formed_def)
next
  case False
  let ?m = "numUsed s + n"
  from False assms have fit: "?m + ?m div 2 + 8 \<le> INT_MAX" and nonneg: "0 \<le> ?m"
    by (auto simp: can_hold_def well_formed_def)
  then have "numAllocated (ensureAllocatedSize tr ?m s) = 8 * ((?m + ?m div 2 + 8) div 8)"
    using False grown_size [of ?m] by (simp add: ensureAllocatedSize_numAllocated)
  moreover have "?m \<le> 8 * ((?m + ?m div 2 + 8) div 8)"
    using nonneg by linarith
  moreover have "8 * ((?m + ?m div 2 + 8) div 8) \<le> ?m + ?m div 2 + 8"
    by linarith
  ultimately show ?thesis
    using fit by simp
qed

lemma well_formed_grow:
  assumes "well_formed s" "0 \<le> n" "can_hold s n"
    and "numUsed s' = int32 (numUsed s + n)"
    and "numAllocated s' = numAllocated (ensureAllocatedSize tr (int32 (numUsed s + n)) s)"
  shows "well_formed s' \<and> numUsed s' = numUsed s + n"
  using assms(4,5) ensure_room [OF assms(1-3), of tr] can_hold_is_int [OF assms(1-3)] assms(1,2)
  by (simp add: int32_id well_formed_def)

lemma perform_well_formed:
  assumes "well_formed s" "admissible x s"
  shows "well_formed (perform tr x s)"
proof (cases x)
  case (Add v)
  with assms well_formed_grow [of s 1 "add tr v s" tr] show ?thesis by simp
next
  case (AddPack v vs)
  with assms well_formed_grow [of s "1 + int (length vs)" "add_pack tr v vs s" tr]
  show ?thesis by (simp add: add.assoc)
next
  case (AddArray same vs n)
  with assms well_formed_grow [of s n "addArray tr same (read_src vs) n s" tr]
  show ?thesis by simp
next
  case (AddArrayItems vs)
  show ?thesis
  proof (cases "vs = []")
    case True
    have "is_int (numUsed s)"
      using assms(1) by (simp add: well_formed_def is_int_def INT_MIN_def)
    then have "int32 (numUsed s) = numUsed s" by (rule int32_id)
    with True AddArrayItems assms well_formed_grow [of s 0 "addArray_items tr vs s" tr]
    show ?thesis by (simp add: addArray_items_sizes)
  next
    case False
    with AddArrayItems assms well_formed_grow [of s "int (length vs)" "addArray_items tr vs s" tr]
    show ?thesis by (simp add: addArray_items_sizes)
  qed
next
  case (AddArrayRange same vs startIndex n)
  define start where "start = (if startIndex < 0 then 0 else startIndex)"
  define size where "size = int (length vs)"
  define n' where "n' = (if n < 0 \<or> start + n > size then size - start else n)"
  from assms AddArrayRange have adm: "start \<le> size" "size \<le> INT_MAX"
      "n < 0 \<or> start + n \<le> INT_MAX" "can_hold s n'"
    by (auto simp: Let_def start_def size_def n'_def max_def)
  have start0: "0 \<le> start" by (simp add: start_def)
  have "is_int size" using adm by (simp add: is_int_def size_def INT_MIN_def)
  then have sz: "int32 size = size" by (rule int32_id)
  have "is_int (size - start)"
    using adm start0 by (simp add: is_int_def INT_MIN_def INT_MAX_def)
  then have df: "int32 (size - start) = size - start" by (rule int32_id)
  have sm: "int32 (start + n) = start + n" if "0 \<le> n"
    using that adm start0 by (intro int32_id) (auto simp: is_int_def INT_MIN_def)
  have cnt: "fst (addArray_range tr same vs startIndex n s) = n'"
    using sm by (auto simp: addArray_range_def Let_def start_def [symmetric] size_def [symmetric]
        sz df n'_def)
  have n'0: "0 \<le> n'" using adm by (auto simp: n'_def)
  have "snd (addArray_range tr same vs startIndex n s)
          = addArray tr same (\<lambda>k. read_src vs (start + k)) n' s"
    using cnt by (simp add: addArray_range_def Let_def start_def [symmetric])
  with AddArrayRange assms(1) n'0 adm(4)
    well_formed_grow [of s n' "addArray tr same (\<lambda>k. read_src vs (start + k)) n' s" tr]
  show ?thesis by simp
next
  case (Insert at v n)
  with assms well_formed_grow [of s n "insert_arr tr at v n s" tr] show ?thesis by simp
next
  case (InsertArray at vs n)
  with assms well_formed_grow [of s n "insertArray tr at (read_src vs) n s" tr]
  show ?thesis by simp
next
  case (RemoveElements at n)
  with assms have "is_int (numUsed s - n)"
    by (auto simp: removeElements_precondition_def well_formed_def is_int_def INT_MIN_def)
  with RemoveElements assms show ?thesis
    by (auto simp: int32_id removeElements_precondition_def well_formed_def)
next
  case (EnsureAllocatedSize n)
  show ?thesis
  proof (cases "n \<le> numAllocated s")
    case True
    with EnsureAllocatedSize assms show ?thesis
      by (simp add: ensureAllocatedSize_numAllocated well_formed_def)
  next
    case False
    with EnsureAllocatedSize assms have fit: "n + n div 2 + 8 \<le> INT_MAX" and n0: "0 \<le> n"
      by (auto simp: well_formed_def)
    then have "numAllocated (ensureAllocatedSize tr n s) = 8 * ((n + n div 2 + 8) div 8)"
      using False grown_size [of n] by (simp add: ensureAllocatedSize_numAllocated)
    moreover have "n \<le> 8 * ((n + n div 2 + 8) div 8)" using n0 by linarith
    moreover have "8 * ((n + n div 2 + 8) div 8) \<le> n + n div 2 + 8" by linarith
    ultimately show ?thesis
      using EnsureAllocatedSize assms False fit by (simp add: well_formed_def)
  qed
qed (use assms in \<open>auto simp: well_formed_def\<close>)

lemma run_well_formed:
  "well_formed s \<Longrightarrow> admissible_run tr ops s \<Longrightarrow> \<forall>s' \<in> set (run tr ops s). well_formed s'"
proof (induction ops arbitrary: s)
  case Nil
  show ?case by simp
next
  case (Cons x ops)
  then have "well_formed (perform tr x s)" and "admissible_run tr ops (perform tr x s)"
    by (simp_all add: perform_well_formed)
  with Cons.IH show ?case by simp
qed

subsection \<open>The live range, slot by slot\<close>

lemma holds_iff:
  "holds s xs \<longleftrightarrow>
     well_formed s \<and> numUsed s = int (length xs)
     \<and> (\<forall>j. 0 \<le> j \<and> j < numUsed s \<longrightarrow> elements s j = Obj (xs ! nat j))"
proof -
  have "contents s = map Obj xs \<longleftrightarrow>
          nat (numUsed s) = length xs \<and> (\<forall>i < length xs. elements s (int i) = Obj (xs ! i))"
    by (auto simp: contents_def list_eq_iff_nth_eq)
  moreover have "(\<forall>i < length xs. elements s (int i) = Obj (xs ! i))
      \<longleftrightarrow> (\<forall>j. 0 \<le> j \<and> j < int (length xs) \<longrightarrow> elements s j = Obj (xs ! nat j))"
  proof (intro iffI allI impI)
    fix j :: int
    assume a: "\<forall>i < length xs. elements s (int i) = Obj (xs ! i)" and "0 \<le> j \<and> j < int (length xs)"
    then have "nat j < length xs" by linarith
    with a have "elements s (int (nat j)) = Obj (xs ! nat j)" by blast
    with \<open>0 \<le> j \<and> j < int (length xs)\<close> show "elements s j = Obj (xs ! nat j)" by simp
  next
    fix i :: nat
    assume a: "\<forall>j. 0 \<le> j \<and> j < int (length xs) \<longrightarrow> elements s j = Obj (xs ! nat j)"
      and "i < length xs"
    then have "elements s (int i) = Obj (xs ! nat (int i))" by simp
    then show "elements s (int i) = Obj (xs ! i)" by simp
  qed
  ultimately show ?thesis
    by (auto simp: holds_def well_formed_def)
qed

lemma holdsI:
  assumes "well_formed s" "numUsed s = int (length xs)"
    and "\<And>j. 0 \<le> j \<Longrightarrow> j < int (length xs) \<Longrightarrow> elements s j = Obj (xs ! nat j)"
  shows "holds s xs"
  using assms by (simp add: holds_iff)

lemma holds_length: "holds s xs \<Longrightarrow> numUsed s = int (length xs)"
  by (simp add: holds_iff)

lemma holds_well_formed: "holds s xs \<Longrightarrow> well_formed s"
  by (simp add: holds_def)

lemma holds_nth: "holds s xs \<Longrightarrow> 0 \<le> j \<Longrightarrow> j < numUsed s \<Longrightarrow> elements s j = Obj (xs ! nat j)"
  by (simp add: holds_iff)

lemma holds_contents: "holds s xs \<Longrightarrow> contents s = map Obj xs"
  by (simp add: holds_def)

lemma holds_unique: "holds s xs \<Longrightarrow> holds s ys \<Longrightarrow> xs = ys"
  by (simp add: holds_def inj_map_eq_map inj_on_def)

subsection \<open>Reallocation keeps the live elements\<close>

lemma setAllocatedSizeInternal_loop_elements:
  "fst (setAllocatedSizeInternal_loop i new s)
     = (\<lambda>j. if i \<le> j \<and> j < numUsed s then elements s j else new j)"
proof (induction i new s rule: setAllocatedSizeInternal_loop.induct)
  case (1 i newElements s)
  show ?case
  proof (cases "i < numUsed s")
    case True
    then have "fst (setAllocatedSizeInternal_loop i newElements s)
        = fst (setAllocatedSizeInternal_loop (i + 1) (newElements(i := elements s i))
                 (destroy i (moved_out i s)))"
      by (subst setAllocatedSizeInternal_loop.simps) simp
    also have "\<dots> = (\<lambda>j. if i + 1 \<le> j \<and> j < numUsed s
                         then elements (destroy i (moved_out i s)) j
                         else (newElements(i := elements s i)) j)"
      using "1.IH" [OF True] by (simp add: fun_upd_def)
    also have "\<dots> = (\<lambda>j. if i \<le> j \<and> j < numUsed s then elements s j else newElements j)"
      using True by (auto simp: fun_eq_iff)
    finally show ?thesis .
  next
    case False
    then show ?thesis
      by (subst setAllocatedSizeInternal_loop.simps) (auto simp: fun_eq_iff)
  qed
qed

lemma setAllocatedSize_elements:
  assumes "numUsed s \<le> numAllocated s" "numUsed s \<le> n" "0 \<le> j" "j < numUsed s"
  shows "elements (setAllocatedSize tr n s) j = elements s j"
  using assms
  by (auto simp: setAllocatedSize_def Let_def setAllocatedSizeInternal_def HeapBlock_realloc_def
        setAllocatedSizeInternal_loop_elements case_prod_beta)

lemma ensureAllocatedSize_elements:
  assumes "well_formed s" "0 \<le> n" "can_hold s n" "0 \<le> j" "j < numUsed s"
  shows "elements (ensureAllocatedSize tr (numUsed s + n) s) j = elements s j"
proof (cases "numUsed s + n > numAllocated s")
  case True
  let ?N = "int32 (numUsed s + n + (numUsed s + n) sdiv 2 + 8) AND NOT 7"
  from True ensure_room [OF assms(1-3), of tr] have "numUsed s + n \<le> ?N"
    by (simp add: ensureAllocatedSize_numAllocated)
  with assms True show ?thesis
    by (simp add: ensureAllocatedSize_def setAllocatedSize_elements well_formed_def)
next
  case False
  then show ?thesis by (simp add: ensureAllocatedSize_def)
qed

lemma ensureAllocatedSize_holds:
  assumes "holds s xs" "0 \<le> n" "can_hold s n"
  shows "holds (ensureAllocatedSize tr (numUsed s + n) s) xs"
    and "numUsed s + n \<le> numAllocated (ensureAllocatedSize tr (numUsed s + n) s)"
proof -
  have wf: "well_formed s" using assms(1) by (rule holds_well_formed)
  from ensure_room [OF wf assms(2,3), of tr]
  show "numUsed s + n \<le> numAllocated (ensureAllocatedSize tr (numUsed s + n) s)" by simp
  show "holds (ensureAllocatedSize tr (numUsed s + n) s) xs"
  proof (rule holdsI)
    show "well_formed (ensureAllocatedSize tr (numUsed s + n) s)"
      using ensure_room [OF wf assms(2,3), of tr] wf assms(2) by (simp add: well_formed_def)
    show "numUsed (ensureAllocatedSize tr (numUsed s + n) s) = int (length xs)"
      using assms(1) by (simp add: holds_length)
    fix j :: int
    assume "0 \<le> j" "j < int (length xs)"
    then have j: "0 \<le> j" "j < numUsed s"
      using assms(1) by (simp_all add: holds_length)
    from ensureAllocatedSize_elements [OF wf assms(2,3) j, of tr] holds_nth [OF assms(1) j]
    show "elements (ensureAllocatedSize tr (numUsed s + n) s) j = Obj (xs ! nat j)"
      by simp
  qed
qed

subsection \<open>insert: opening the gap and filling it\<close>

lemma move_construct_elements [simp]:
  "dst \<noteq> src \<Longrightarrow>
     elements (move_construct dst src s)
       = (elements s)(dst := elements s src, src := residue (elements s src))"
  "elements (move_construct src src s) = (elements s)(src := residue (elements s src))"
  by (simp_all add: move_construct_def)

lemma insert_loop_elements:
  "elements (insert_loop i n space v s)
     = (\<lambda>j. if space \<le> j \<and> j < space + (n - i) then Obj v else elements s j)"
proof (induction i n space v s rule: insert_loop.induct)
  case (1 i n space v s)
  show ?case
  proof (cases "i < n")
    case True
    then have "elements (insert_loop i n space v s)
        = elements (insert_loop (i + 1) n (space + 1) v (construct space (Obj v) s))"
      by (subst insert_loop.simps) simp
    also have "\<dots> = (\<lambda>j. if space + 1 \<le> j \<and> j < space + 1 + (n - (i + 1)) then Obj v
                         else elements (construct space (Obj v) s) j)"
      using "1.IH" [OF True] by simp
    also have "\<dots> = (\<lambda>j. if space \<le> j \<and> j < space + (n - i) then Obj v else elements s j)"
      using True by (auto simp: fun_eq_iff)
    finally show ?thesis .
  next
    case False
    then show ?thesis
      by (subst insert_loop.simps) (auto simp: fun_eq_iff)
  qed
qed

lemma insert_loop_once:
  "insert_loop 0 1 space v s = construct space (Obj v) s"
  by (simp add: insert_loop.simps [of 0 1] insert_loop.simps [of 1 1])

lemma createInsertSpaceInternal_loop_elements:
  assumes "endp < newEnd"
  shows "elements (createInsertSpaceInternal_loop i k endp newEnd s)
     = (\<lambda>j. if newEnd - (k - i) \<le> j \<and> j < newEnd then elements s (j - (newEnd - endp))
             else if endp - (k - i) \<le> j \<and> j < endp then Raw
             else elements s j)"
  using assms
proof (induction i k endp newEnd s rule: createInsertSpaceInternal_loop.induct)
  case (1 i k endp newEnd s)
  show ?case
  proof (cases "i < k")
    case True
    let ?s1 = "destroy (endp - 1) (move_construct (newEnd - 1) (endp - 1) s)"
    have e1: "elements ?s1 = (elements s)(newEnd - 1 := elements s (endp - 1), endp - 1 := Raw)"
      using "1.prems" by simp
    have "elements (createInsertSpaceInternal_loop i k endp newEnd s)
        = elements (createInsertSpaceInternal_loop (i + 1) k (endp - 1) (newEnd - 1) ?s1)"
      using True by (subst createInsertSpaceInternal_loop.simps) simp
    also have "\<dots> = (\<lambda>j. if newEnd - 1 - (k - (i + 1)) \<le> j \<and> j < newEnd - 1
                           then elements ?s1 (j - (newEnd - 1 - (endp - 1)))
                         else if endp - 1 - (k - (i + 1)) \<le> j \<and> j < endp - 1 then Raw
                         else elements ?s1 j)"
      using "1.IH" [OF True] "1.prems" by simp
    also have "\<dots> = (\<lambda>j. if newEnd - (k - i) \<le> j \<and> j < newEnd
                           then elements s (j - (newEnd - endp))
                         else if endp - (k - i) \<le> j \<and> j < endp then Raw
                         else elements s j)"
      unfolding e1 using True "1.prems" by (auto simp: fun_eq_iff)
    finally show ?thesis .
  next
    case False
    then show ?thesis
      by (subst createInsertSpaceInternal_loop.simps) (auto simp: fun_eq_iff)
  qed
qed

text \<open>With no element to insert the loop of the non-trivially-copyable overload constructs each
  element of the tail onto itself and then destroys it.\<close>

lemma createInsertSpaceInternal_loop_elements_0:
  assumes "newEnd = endp"
  shows "elements (createInsertSpaceInternal_loop i k endp newEnd s)
     = (\<lambda>j. if endp - (k - i) \<le> j \<and> j < endp then Raw else elements s j)"
  using assms
proof (induction i k endp newEnd s rule: createInsertSpaceInternal_loop.induct)
  case (1 i k endp newEnd s)
  show ?case
  proof (cases "i < k")
    case True
    let ?s1 = "destroy (endp - 1) (move_construct (newEnd - 1) (endp - 1) s)"
    have e1: "elements ?s1 = (elements s)(endp - 1 := Raw)"
      using "1.prems" by simp
    have "elements (createInsertSpaceInternal_loop i k endp newEnd s)
        = elements (createInsertSpaceInternal_loop (i + 1) k (endp - 1) (newEnd - 1) ?s1)"
      using True by (subst createInsertSpaceInternal_loop.simps) simp
    also have "\<dots> = (\<lambda>j. if endp - 1 - (k - (i + 1)) \<le> j \<and> j < endp - 1 then Raw
                         else elements ?s1 j)"
      using "1.IH" [OF True] "1.prems" by simp
    also have "\<dots> = (\<lambda>j. if endp - (k - i) \<le> j \<and> j < endp then Raw else elements s j)"
      unfolding e1 using True by (auto simp: fun_eq_iff)
    finally show ?thesis .
  next
    case False
    then show ?thesis
      by (subst createInsertSpaceInternal_loop.simps) (auto simp: fun_eq_iff)
  qed
qed

lemma createInsertSpaceInternal_elements:
  assumes "0 < n \<or> (is_trivially_copyable tr \<and> n = 0)"
  shows "j < at \<Longrightarrow> elements (createInsertSpaceInternal tr at n s) j = elements s j"
    and "at + n \<le> j \<Longrightarrow> j < numUsed s + n \<Longrightarrow>
           elements (createInsertSpaceInternal tr at n s) j = elements s (j - n)"
  using assms
  by (auto simp: createInsertSpaceInternal_def Let_def memmove_def
        createInsertSpaceInternal_loop_elements)

lemma nth_insert_list:
  assumes "a \<le> length xs" "i < length xs + n"
  shows "(take a xs @ replicate n v @ drop a xs) ! i
           = (if i < a then xs ! i else if i < a + n then v else xs ! (i - n))"
  using assms by (auto simp: nth_append min_def)

text \<open>The effect of \<^verbatim>\<open>insert\<close> on a well-formed container, for a count that is positive, or
  zero with a trivially copyable element type.\<close>

lemma insert_arr_holds_inside:
  assumes h: "holds s xs" and n: "0 < n \<or> (is_trivially_copyable tr \<and> n = 0)"
    and fit: "can_hold s n"
    and at: "0 \<le> at" "at < numUsed s"
  shows "holds (insert_arr tr at v n s) (take (nat at) xs @ replicate (nat n) v @ drop (nat at) xs)"
proof -
  have n0: "0 \<le> n" using n by auto
  have wf: "well_formed s" using h by (rule holds_well_formed)
  have len: "numUsed s = int (length xs)" using h by (rule holds_length)
  have m: "int32 (numUsed s + n) = numUsed s + n"
    using can_hold_is_int [OF wf n0 fit] by (rule int32_id)
  define s1 where "s1 = ensureAllocatedSize tr (numUsed s + n) s"
  have h1: "holds s1 xs" and room: "numUsed s + n \<le> numAllocated s1"
    unfolding s1_def using ensureAllocatedSize_holds [OF h n0 fit] by simp_all
  have u1: "numUsed s1 = numUsed s" by (simp add: s1_def)
  define s2 where "s2 = createInsertSpaceInternal tr at n s1"
  have cis: "createInsertSpace tr at n s = (at, s2)"
    using at by (simp add: createInsertSpace_def Let_def m s1_def [symmetric] u1
        isPositiveAndBelow_def s2_def)
  define s' where "s' = insert_arr tr at v n s"
  have u2: "numUsed s2 = numUsed s" "numAllocated s2 = numAllocated s1"
    by (simp_all add: s2_def u1)
  have el: "elements s' = (\<lambda>j. if at \<le> j \<and> j < at + n then Obj v else elements s2 j)"
    and u': "numUsed s' = numUsed s + n"
    and a': "numAllocated s' = numAllocated s1"
    by (simp_all add: s'_def insert_arr_def cis Let_def insert_loop_elements insert_loop_sizes
        u2 m)
  show ?thesis
    unfolding s'_def [symmetric]
  proof (rule holdsI)
    show "well_formed s'"
      using wf n0 room h1 by (simp add: well_formed_def u' a' holds_iff)
    show "numUsed s' = int (length (take (nat at) xs @ replicate (nat n) v @ drop (nat at) xs))"
      using at n0 len by (simp add: u')
    fix j :: int
    assume j: "0 \<le> j"
      "j < int (length (take (nat at) xs @ replicate (nat n) v @ drop (nat at) xs))"
    then have jb: "j < numUsed s + n" using at n0 len by simp
    have nth: "(take (nat at) xs @ replicate (nat n) v @ drop (nat at) xs) ! nat j
          = (if j < at then xs ! nat j else if j < at + n then v else xs ! nat (j - n))"
      using nth_insert_list [of "nat at" xs "nat j" "nat n" v] at n0 len j(1) jb
      by (simp add: nat_diff_distrib nat_less_iff nat_add_distrib)
    consider "j < at" | "at \<le> j" "j < at + n" | "at + n \<le> j" by linarith
    then show "elements s' j
        = Obj ((take (nat at) xs @ replicate (nat n) v @ drop (nat at) xs) ! nat j)"
    proof cases
      case 1
      then have "elements s' j = elements s1 j"
        using createInsertSpaceInternal_elements(1) [OF n, of j at s1]
        by (simp add: el s2_def)
      also have "\<dots> = Obj (xs ! nat j)"
        using holds_nth [OF h1, of j] j(1) 1 at by (simp add: u1)
      finally show ?thesis using 1 by (simp add: nth)
    next
      case 2
      then show ?thesis by (simp add: el nth)
    next
      case 3
      then have "elements s' j = elements s1 (j - n)"
        using createInsertSpaceInternal_elements(2) [OF n, of at j s1] jb n
        by (auto simp: el s2_def u1)
      also have "\<dots> = Obj (xs ! nat (j - n))"
        using holds_nth [OF h1, of "j - n"] 3 at jb by (simp add: u1)
      finally show ?thesis using 3 n by (auto simp: nth)
    qed
  qed
qed

lemma insert_arr_holds_append:
  assumes h: "holds s xs" and n0: "0 \<le> n" and fit: "can_hold s n"
    and at: "\<not> isPositiveAndBelow at (numUsed s)"
  shows "holds (insert_arr tr at v n s) (xs @ replicate (nat n) v)"
proof -
  have wf: "well_formed s" using h by (rule holds_well_formed)
  have len: "numUsed s = int (length xs)" using h by (rule holds_length)
  have m: "int32 (numUsed s + n) = numUsed s + n"
    using can_hold_is_int [OF wf n0 fit] by (rule int32_id)
  define s1 where "s1 = ensureAllocatedSize tr (numUsed s + n) s"
  have h1: "holds s1 xs" and room: "numUsed s + n \<le> numAllocated s1"
    unfolding s1_def using ensureAllocatedSize_holds [OF h n0 fit] by simp_all
  have u1: "numUsed s1 = numUsed s" by (simp add: s1_def)
  have cis: "createInsertSpace tr at n s = (numUsed s, s1)"
    using at by (simp add: createInsertSpace_def Let_def m s1_def [symmetric] u1)
  define s' where "s' = insert_arr tr at v n s"
  have el: "elements s'
      = (\<lambda>j. if numUsed s \<le> j \<and> j < numUsed s + n then Obj v else elements s1 j)"
    and u': "numUsed s' = numUsed s + n"
    and a': "numAllocated s' = numAllocated s1"
    by (simp_all add: s'_def insert_arr_def cis Let_def insert_loop_elements insert_loop_sizes
        u1 m)
  show ?thesis
    unfolding s'_def [symmetric]
  proof (rule holdsI)
    show "well_formed s'"
      using wf n0 room h1 by (simp add: well_formed_def u' a' holds_iff)
    show "numUsed s' = int (length (xs @ replicate (nat n) v))"
      using n0 len by (simp add: u')
    fix j :: int
    assume j: "0 \<le> j" "j < int (length (xs @ replicate (nat n) v))"
    then have jb: "j < numUsed s + n" using n0 len by simp
    show "elements s' j = Obj ((xs @ replicate (nat n) v) ! nat j)"
    proof (cases "j < numUsed s")
      case True
      then have "elements s' j = Obj (xs ! nat j)"
        using holds_nth [OF h1, of j] j(1) by (simp add: el u1)
      then show ?thesis using True len j(1) by (simp add: nth_append nat_less_iff)
    next
      case False
      then show ?thesis using jb len j(1) by (simp add: el nth_append nat_less_iff)
    qed
  qed
qed

subsection \<open>removeElements: closing the gap\<close>

lemma moveAssignElement_at_elements [simp]:
  "d \<noteq> src \<Longrightarrow>
     elements (moveAssignElement_at tr d src s)
       = (elements s)(d := elements s src, src := residue (elements s src))"
  by (simp add: moveAssignElement_at_def)

lemma removeElementsInternal_shift_fst:
  "fst (removeElementsInternal_shift tr i k d src s) = d + max 0 (k - i)"
proof (induction tr i k d src s rule: removeElementsInternal_shift.induct)
  case (1 tr i k d src s)
  show ?case
    using "1.IH" by (subst removeElementsInternal_shift.simps) auto
qed

lemma removeElementsInternal_shift_elements:
  assumes "d < src"
  shows "\<forall>j. j < d + (k - i) \<longrightarrow>
           elements (snd (removeElementsInternal_shift tr i k d src s)) j
             = (if d \<le> j then elements s (j + (src - d)) else elements s j)"
  using assms
proof (induction tr i k d src s rule: removeElementsInternal_shift.induct)
  case (1 tr i k d src s)
  show ?case
  proof (cases "i < k")
    case True
    let ?s1 = "moveAssignElement_at tr d src s"
    have e1: "elements ?s1 = (elements s)(d := elements s src, src := residue (elements s src))"
      using "1.prems" by simp
    have unf: "removeElementsInternal_shift tr i k d src s
        = removeElementsInternal_shift tr (i + 1) k (d + 1) (src + 1) ?s1"
      using True by (subst removeElementsInternal_shift.simps) simp
    have ih: "\<forall>j. j < d + 1 + (k - (i + 1)) \<longrightarrow>
           elements (snd (removeElementsInternal_shift tr (i + 1) k (d + 1) (src + 1) ?s1)) j
             = (if d + 1 \<le> j then elements ?s1 (j + (src + 1 - (d + 1))) else elements ?s1 j)"
      using "1.IH" [OF True] "1.prems" by simp
    show ?thesis
      unfolding unf
    proof (intro allI impI)
      fix j :: int
      assume jb: "j < d + (k - i)"
      consider "j < d" | "j = d" | "d < j" by linarith
      then show "elements (snd (removeElementsInternal_shift tr (i + 1) k (d + 1) (src + 1) ?s1)) j
              = (if d \<le> j then elements s (j + (src - d)) else elements s j)"
        using ih jb "1.prems" by cases (simp_all add: e1)
    qed
  next
    case False
    then show ?thesis
      by (subst removeElementsInternal_shift.simps) auto
  qed
qed

lemma removeElementsInternal_destroy_elements:
  "elements (removeElementsInternal_destroy i n d s)
     = (\<lambda>j. if d \<le> j \<and> j < d + (n - i) then Raw else elements s j)"
proof (induction i n d s rule: removeElementsInternal_destroy.induct)
  case (1 i n d s)
  show ?case
  proof (cases "i < n")
    case True
    then have "elements (removeElementsInternal_destroy i n d s)
        = elements (removeElementsInternal_destroy (i + 1) n (d + 1) (destroy d s))"
      by (subst removeElementsInternal_destroy.simps) simp
    also have "\<dots> = (\<lambda>j. if d + 1 \<le> j \<and> j < d + 1 + (n - (i + 1)) then Raw
                         else elements (destroy d s) j)"
      using "1.IH" [OF True] by simp
    also have "\<dots> = (\<lambda>j. if d \<le> j \<and> j < d + (n - i) then Raw else elements s j)"
      using True by (auto simp: fun_eq_iff)
    finally show ?thesis .
  next
    case False
    then show ?thesis
      by (subst removeElementsInternal_destroy.simps) (auto simp: fun_eq_iff)
  qed
qed

lemma removeElementsInternal_elements:
  assumes "0 \<le> at" "0 < n" "at + n \<le> numUsed s" "numUsed s \<le> INT_MAX"
    and "j < numUsed s - n"
  shows "elements (removeElementsInternal tr at n s) j
           = (if at \<le> j then elements s (j + n) else elements s j)"
proof -
  have "is_int (at + n)" "is_int (numUsed s - (at + n))"
    using assms by (simp_all add: is_int_def INT_MIN_def INT_MAX_def)
  then have k: "int32 (numUsed s - int32 (at + n)) = numUsed s - (at + n)"
    by (simp add: int32_id)
  show ?thesis
  proof (cases "is_trivially_copyable tr")
    case True
    with assms show ?thesis
      by (auto simp: removeElementsInternal_def Let_def k memmove_def ac_simps)
  next
    case False
    define r where "r = removeElementsInternal_shift tr 0 (numUsed s - (at + n)) at (at + n) s"
    have f: "fst r = numUsed s - n"
      using assms by (simp add: r_def removeElementsInternal_shift_fst)
    have "elements (snd r) j = (if at \<le> j then elements s (j + n) else elements s j)"
      using removeElementsInternal_shift_elements [of at "at + n" "numUsed s - (at + n)" 0 tr s]
        assms by (simp add: r_def)
    with False assms f show ?thesis
      by (simp add: removeElementsInternal_def Let_def k r_def [symmetric] case_prod_beta
          removeElementsInternal_destroy_elements)
  qed
qed

lemma nth_remove_list:
  assumes "a + n \<le> length xs" "i < length xs - n"
  shows "(take a xs @ drop (a + n) xs) ! i = (if i < a then xs ! i else xs ! (i + n))"
  using assms by (auto simp: nth_append min_def add.commute add.left_commute)

lemma removeElements_holds:
  assumes h: "holds s xs" and pre: "removeElements_precondition at n s"
  shows "holds (removeElements tr at n s) (take (nat at) xs @ drop (nat (at + n)) xs)"
proof (cases "n = 0")
  case True
  with pre h show ?thesis
    by (simp add: removeElements_def removeElements_precondition_def)
next
  case False
  with pre have at: "0 \<le> at" and n: "0 < n" and up: "at + n \<le> numUsed s"
    by (simp_all add: removeElements_precondition_def)
  have wf: "well_formed s" using h by (rule holds_well_formed)
  have len: "numUsed s = int (length xs)" using h by (rule holds_length)
  have mx: "numUsed s \<le> INT_MAX" using wf by (simp add: well_formed_def)
  have "is_int (numUsed s - n)"
    using at n up mx by (simp add: is_int_def INT_MIN_def)
  then have i32: "int32 (numUsed s - n) = numUsed s - n"
    by (rule int32_id)
  then have u: "numUsed (removeElements tr at n s) = numUsed s - n"
    using n by simp
  have el: "elements (removeElements tr at n s) = elements (removeElementsInternal tr at n s)"
    using n by (simp add: removeElements_def Let_def)
  show ?thesis
  proof (rule holdsI)
    show "well_formed (removeElements tr at n s)"
      using wf at n up by (simp add: well_formed_def i32)
    show "numUsed (removeElements tr at n s)
            = int (length (take (nat at) xs @ drop (nat (at + n)) xs))"
      using at n up len i32 by simp
    fix j :: int
    assume j: "0 \<le> j" "j < int (length (take (nat at) xs @ drop (nat (at + n)) xs))"
    then have jb: "j < numUsed s - n" using at n up len by simp
    have "(take (nat at) xs @ drop (nat (at + n)) xs) ! nat j
            = (if j < at then xs ! nat j else xs ! nat (j + n))"
      using nth_remove_list [of "nat at" "nat n" xs "nat j"] at n up len j(1) jb
      by (simp add: nat_add_distrib nat_less_iff)
    moreover have "elements (removeElements tr at n s) j
            = (if at \<le> j then elements s (j + n) else elements s j)"
      unfolding el using removeElementsInternal_elements [OF at n up mx jb] .
    moreover have "elements s (j + n) = Obj (xs ! nat (j + n))"
      using holds_nth [OF h, of "j + n"] j(1) n jb by simp
    moreover have "elements s j = Obj (xs ! nat j)"
      using holds_nth [OF h, of j] j(1) n jb by simp
    ultimately show "elements (removeElements tr at n s) j
        = Obj ((take (nat at) xs @ drop (nat (at + n)) xs) ! nat j)"
      by auto
  qed
qed

subsection \<open>move: one element relocated\<close>

lemma moveInternal_up_fst:
  "fst (moveInternal_up tr i delta e s) = e + max 0 (delta - i)"
proof (induction tr i delta e s rule: moveInternal_up.induct)
  case (1 tr i delta e s)
  show ?case
    using "1.IH" by (subst moveInternal_up.simps) auto
qed

lemma moveInternal_down_fst:
  "fst (moveInternal_down tr i delta e s) = e - max 0 (- delta - i)"
proof (induction tr i delta e s rule: moveInternal_down.induct)
  case (1 tr i delta e s)
  show ?case
    using "1.IH" by (subst moveInternal_down.simps) auto
qed

lemma moveInternal_up_elements:
  "\<forall>j. j \<noteq> e + max 0 (delta - i) \<longrightarrow>
     elements (snd (moveInternal_up tr i delta e s)) j
       = (if e \<le> j \<and> j < e + (delta - i) then elements s (j + 1) else elements s j)"
proof (induction tr i delta e s rule: moveInternal_up.induct)
  case (1 tr i delta e s)
  show ?case
  proof (cases "i < delta")
    case True
    let ?s1 = "moveAssignElement_at tr e (e + 1) s"
    have e1: "elements ?s1
        = (elements s)(e := elements s (e + 1), e + 1 := residue (elements s (e + 1)))"
      by simp
    have unf: "moveInternal_up tr i delta e s = moveInternal_up tr (i + 1) delta (e + 1) ?s1"
      using True by (subst moveInternal_up.simps) simp
    have ih: "\<forall>j. j \<noteq> e + 1 + max 0 (delta - (i + 1)) \<longrightarrow>
        elements (snd (moveInternal_up tr (i + 1) delta (e + 1) ?s1)) j
          = (if e + 1 \<le> j \<and> j < e + 1 + (delta - (i + 1)) then elements ?s1 (j + 1)
             else elements ?s1 j)"
      using "1.IH" [OF True] by simp
    show ?thesis
      unfolding unf
    proof (intro allI impI)
      fix j :: int
      assume jn: "j \<noteq> e + max 0 (delta - i)"
      consider "j < e" | "j = e" | "j = e + 1" | "e + 1 < j" by linarith
      then show "elements (snd (moveInternal_up tr (i + 1) delta (e + 1) ?s1)) j
          = (if e \<le> j \<and> j < e + (delta - i) then elements s (j + 1) else elements s j)"
        using ih jn True by cases (auto simp: e1)
    qed
  next
    case False
    then show ?thesis
      by (subst moveInternal_up.simps) auto
  qed
qed

lemma moveInternal_down_elements:
  "\<forall>j. j \<noteq> e - max 0 (- delta - i) \<longrightarrow>
     elements (snd (moveInternal_down tr i delta e s)) j
       = (if e - (- delta - i) < j \<and> j \<le> e then elements s (j - 1) else elements s j)"
proof (induction tr i delta e s rule: moveInternal_down.induct)
  case (1 tr i delta e s)
  show ?case
  proof (cases "i < - delta")
    case True
    let ?s1 = "moveAssignElement_at tr e (e - 1) s"
    have e1: "elements ?s1
        = (elements s)(e := elements s (e - 1), e - 1 := residue (elements s (e - 1)))"
      by simp
    have unf: "moveInternal_down tr i delta e s = moveInternal_down tr (i + 1) delta (e - 1) ?s1"
      using True by (subst moveInternal_down.simps) simp
    have ih: "\<forall>j. j \<noteq> e - 1 - max 0 (- delta - (i + 1)) \<longrightarrow>
        elements (snd (moveInternal_down tr (i + 1) delta (e - 1) ?s1)) j
          = (if e - 1 - (- delta - (i + 1)) < j \<and> j \<le> e - 1 then elements ?s1 (j - 1)
             else elements ?s1 j)"
      using "1.IH" [OF True] by simp
    show ?thesis
      unfolding unf
    proof (intro allI impI)
      fix j :: int
      assume jn: "j \<noteq> e - max 0 (- delta - i)"
      consider "e < j" | "j = e" | "j = e - 1" | "j < e - 1" by linarith
      then show "elements (snd (moveInternal_down tr (i + 1) delta (e - 1) ?s1)) j
          = (if e - (- delta - i) < j \<and> j \<le> e then elements s (j - 1) else elements s j)"
        using ih jn True by cases (auto simp: e1)
    qed
  next
    case False
    then show ?thesis
      by (subst moveInternal_down.simps) auto
  qed
qed

text \<open>Both overloads of \<^verbatim>\<open>moveInternal\<close> leave the same block behind.\<close>

lemma moveInternal_elements:
  "elements (moveInternal tr currentIndex newIndex s)
     = (\<lambda>j. if j = newIndex then elements s currentIndex
             else if currentIndex \<le> j \<and> j < newIndex then elements s (j + 1)
             else if newIndex < j \<and> j \<le> currentIndex then elements s (j - 1)
             else elements s j)"
proof (cases "is_trivially_copyable tr")
  case True
  then show ?thesis
    by (auto simp: moveInternal_def Let_def memmove_def fun_eq_iff add.commute)
next
  case False
  let ?s0 = "moved_out currentIndex s"
  let ?delta = "newIndex - currentIndex"
  show ?thesis
  proof (cases "?delta > 0")
    case True
    define r where "r = moveInternal_up tr 0 ?delta currentIndex ?s0"
    have f: "fst r = newIndex"
      using True by (simp add: r_def moveInternal_up_fst)
    have el: "\<forall>j. j \<noteq> newIndex \<longrightarrow> elements (snd r) j
        = (if currentIndex \<le> j \<and> j < newIndex then elements ?s0 (j + 1) else elements ?s0 j)"
      using moveInternal_up_elements [of currentIndex ?delta 0 tr ?s0] True by (simp add: r_def)
    have "moveInternal tr currentIndex newIndex s
        = moveAssignElement tr newIndex (elements s currentIndex) (snd r)"
      using False True f by (simp add: moveInternal_def Let_def r_def [symmetric] case_prod_beta)
    then show ?thesis
      using el True by (auto simp: fun_eq_iff)
  next
    case down: False
    define r where "r = moveInternal_down tr 0 ?delta currentIndex ?s0"
    have f: "fst r = newIndex"
      using down by (simp add: r_def moveInternal_down_fst)
    have el: "\<forall>j. j \<noteq> newIndex \<longrightarrow> elements (snd r) j
        = (if newIndex < j \<and> j \<le> currentIndex then elements ?s0 (j - 1) else elements ?s0 j)"
      using moveInternal_down_elements [of currentIndex ?delta 0 tr ?s0] down
      by (simp add: r_def)
    have "moveInternal tr currentIndex newIndex s
        = moveAssignElement tr newIndex (elements s currentIndex) (snd r)"
      using False down f by (simp add: moveInternal_def Let_def r_def [symmetric] case_prod_beta)
    then show ?thesis
      using el down by (auto simp: fun_eq_iff)
  qed
qed

lemma move_elements:
  "elements (move tr currentIndex newIndex s)
     = (if isPositiveAndBelow currentIndex (numUsed s)
        then (\<lambda>j. let to = (if isPositiveAndBelow newIndex (numUsed s) then newIndex
                              else numUsed s - 1)
                   in if j = to then elements s currentIndex
                      else if currentIndex \<le> j \<and> j < to then elements s (j + 1)
                      else if to < j \<and> j \<le> currentIndex then elements s (j - 1)
                      else elements s j)
        else elements s)"
  by (simp add: move_def Let_def moveInternal_elements)

lemma move_outside [simp]:
  "\<not> isPositiveAndBelow currentIndex (numUsed s) \<Longrightarrow> move tr currentIndex newIndex s = s"
  by (simp add: move_def)

lemma nth_without:
  assumes "from < length xs" "k < length xs - 1"
  shows "(take from xs @ drop (Suc from) xs) ! k = (if k < from then xs ! k else xs ! (k + 1))"
  using assms by (simp add: nth_append min_def)

lemma nth_with:
  assumes "to \<le> length rest" "i \<le> length rest"
  shows "(take to rest @ [x] @ drop to rest) ! i
           = (if i < to then rest ! i else if i = to then x else rest ! (i - 1))"
  using assms by (auto simp: nth_append min_def nth_Cons')

lemma nth_list_move:
  assumes "from < length xs" "to < length xs" "i < length xs"
  shows "list_move xs from to ! i
           = (if i = to then xs ! from
              else if from \<le> i \<and> i < to then xs ! (i + 1)
              else if to < i \<and> i \<le> from then xs ! (i - 1)
              else xs ! i)"
proof -
  define rest where "rest = take from xs @ drop (Suc from) xs"
  have len: "length rest = length xs - 1"
    using assms(1) by (simp add: rest_def)
  have rest_nth: "rest ! k = (if k < from then xs ! k else xs ! (k + 1))" if "k < length xs - 1" for k
    unfolding rest_def using nth_without [OF assms(1) that] .
  have "list_move xs from to = take to rest @ [xs ! from] @ drop to rest"
    by (simp add: list_move_def Let_def rest_def)
  then have split: "list_move xs from to ! i
      = (if i < to then rest ! i else if i = to then xs ! from else rest ! (i - 1))"
    using nth_with [of to rest i "xs ! from"] assms len by simp
  consider "i < to" | "i = to" | "to < i" by linarith
  then show ?thesis
  proof cases
    case 1
    with assms have "i < length xs - 1" by linarith
    with 1 split rest_nth [of i] show ?thesis by simp
  next
    case 2
    with split show ?thesis by simp
  next
    case 3
    with assms have "i - 1 < length xs - 1" by linarith
    with 3 split rest_nth [of "i - 1"] show ?thesis by auto
  qed
qed

lemma length_list_move [simp]:
  "from < length xs \<Longrightarrow> to < length xs \<Longrightarrow> length (list_move xs from to) = length xs"
  by (auto simp: list_move_def Let_def min_def)

subsection \<open>clear: the destructor calls\<close>

lemma clear_loop_destroyed:
  "destroyed (clear_loop i s) = destroyed s @ [i..numUsed s - 1]"
proof (induction i s rule: clear_loop.induct)
  case (1 i s)
  show ?case
  proof (cases "i < numUsed s")
    case True
    then have "destroyed (clear_loop i s) = destroyed (clear_loop (i + 1) (destroy i s))"
      by (subst clear_loop.simps) simp
    also have "\<dots> = (destroyed s @ [i]) @ [i + 1..numUsed s - 1]"
      using "1.IH" [OF True] by simp
    also have "\<dots> = destroyed s @ [i..numUsed s - 1]"
      using True upto_rec1 [of i "numUsed s - 1"] by simp
    finally show ?thesis .
  next
    case False
    then show ?thesis
      by (subst clear_loop.simps) simp
  qed
qed

lemma clear_loop_elements:
  "elements (clear_loop i s) = (\<lambda>j. if i \<le> j \<and> j < numUsed s then Raw else elements s j)"
proof (induction i s rule: clear_loop.induct)
  case (1 i s)
  show ?case
  proof (cases "i < numUsed s")
    case True
    then have "elements (clear_loop i s) = elements (clear_loop (i + 1) (destroy i s))"
      by (subst clear_loop.simps) simp
    also have "\<dots> = (\<lambda>j. if i + 1 \<le> j \<and> j < numUsed s then Raw else elements (destroy i s) j)"
      using "1.IH" [OF True] by simp
    also have "\<dots> = (\<lambda>j. if i \<le> j \<and> j < numUsed s then Raw else elements s j)"
      using True by (auto simp: fun_eq_iff)
    finally show ?thesis .
  next
    case False
    then show ?thesis
      by (subst clear_loop.simps) (auto simp: fun_eq_iff)
  qed
qed

subsection \<open>operator==: the comparison loop\<close>

lemma operator_eq_loop_fst:
  "fst (operator_eq_loop eq elems e others)
     \<longleftrightarrow> (\<forall>k < length others. slot_eq eq (elems (e + int k)) (others ! k))"
proof (induction others arbitrary: e)
  case Nil
  show ?case by simp
next
  case (Cons o' others)
  have "(\<forall>k < Suc (length others). slot_eq eq (elems (e + int k)) ((o' # others) ! k))
      \<longleftrightarrow> slot_eq eq (elems e) o'
          \<and> (\<forall>k < length others. slot_eq eq (elems (e + 1 + int k)) (others ! k))"
    by (auto simp: less_Suc_eq_0_disj add.assoc add.commute add.left_commute)
  then show ?case
    using Cons.IH [of "e + 1"] by simp
qed

text \<open>The loop returns at the first unequal pair: with pair \<open>k\<close> unequal and all pairs before
  it equal, it has compared exactly the pairs \<open>0, \<dots>, k\<close>.\<close>

lemma operator_eq_loop_short_circuit:
  assumes "k < length others" "\<not> slot_eq eq (elems (e + int k)) (others ! k)"
    and "\<forall>i < k. slot_eq eq (elems (e + int i)) (others ! i)"
  shows "operator_eq_loop eq elems e others = (False, e + int k + 1)"
  using assms
proof (induction others arbitrary: e k)
  case Nil
  then show ?case by simp
next
  case (Cons o' others)
  show ?case
  proof (cases k)
    case 0
    with Cons.prems show ?thesis by simp
  next
    case (Suc k')
    with Cons.prems have hd: "slot_eq eq (elems e) o'" by auto
    have "operator_eq_loop eq elems (e + 1) others = (False, e + 1 + int k' + 1)"
    proof (rule Cons.IH)
      show "k' < length others" using Cons.prems Suc by simp
      show "\<not> slot_eq eq (elems (e + 1 + int k')) (others ! k')"
        using Cons.prems(2) Suc by (simp add: add.assoc add.commute add.left_commute)
      show "\<forall>i < k'. slot_eq eq (elems (e + 1 + int i)) (others ! i)"
      proof (intro allI impI)
        fix i assume "i < k'"
        then have "slot_eq eq (elems (e + int (Suc i))) ((o' # others) ! Suc i)"
          using Cons.prems(3) Suc by blast
        then show "slot_eq eq (elems (e + 1 + int i)) (others ! i)"
          by (simp add: add.assoc add.commute add.left_commute)
      qed
    qed
    with hd Suc show ?thesis by simp
  qed
qed

lemma operator_eq_loop_all_equal:
  assumes "\<forall>k < length others. slot_eq eq (elems (e + int k)) (others ! k)"
  shows "operator_eq_loop eq elems e others = (True, e + int (length others))"
  using assms
proof (induction others arbitrary: e)
  case Nil
  show ?case by simp
next
  case (Cons o' others)
  from Cons.prems have hd: "slot_eq eq (elems e) o'" by auto
  have "\<forall>k < length others. slot_eq eq (elems (e + 1 + int k)) (others ! k)"
  proof (intro allI impI)
    fix k assume "k < length others"
    then have "slot_eq eq (elems (e + int (Suc k))) ((o' # others) ! Suc k)"
      using Cons.prems by (metis Suc_less_eq length_Cons)
    then show "slot_eq eq (elems (e + 1 + int k)) (others ! k)"
      by (simp add: add.assoc add.commute add.left_commute)
  qed
  from Cons.IH [OF this] hd show ?case by simp
qed

lemma operator_eq_holds:
  assumes "holds a xs" "holds b ys"
  shows "operator_eq eq a b \<longleftrightarrow> length xs = length ys \<and> (\<forall>k < length xs. eq (xs ! k) (ys ! k))"
proof (cases "length xs = length ys")
  case False
  with assms show ?thesis
    by (simp add: operator_eq_def size_arr_def holds_length)
next
  case True
  have "slot_eq eq (elements a (0 + int k)) (contents b ! k) \<longleftrightarrow> eq (xs ! k) (ys ! k)"
    if "k < length ys" for k
    using that True holds_nth [OF assms(1), of "int k"] holds_length [OF assms(1)]
    by (simp add: holds_contents [OF assms(2)])
  then have "fst (operator_eq_loop eq (elements a) 0 (contents b))
      \<longleftrightarrow> (\<forall>k < length ys. eq (xs ! k) (ys ! k))"
    unfolding operator_eq_loop_fst by (simp add: holds_contents [OF assms(2)])
  with True assms show ?thesis
    by (simp add: operator_eq_def size_arr_def holds_length)
qed

lemma count_list_upto:
  "count_list [i..j] k = (if i \<le> k \<and> k \<le> j then 1 else 0)"
proof (induction "nat (j - i + 1)" arbitrary: i)
  case 0
  then show ?case by simp
next
  case (Suc n)
  then have ij: "i \<le> j" by linarith
  then have "[i..j] = i # [i + 1..j]" by (rule upto_rec1)
  moreover have "count_list [i + 1..j] k = (if i + 1 \<le> k \<and> k \<le> j then 1 else 0)"
    using Suc by (intro Suc.hyps(1)) linarith
  ultimately show ?case using ij by auto
qed

subsection \<open>C1: the capacity after \<^verbatim>\<open>ensureAllocatedSize\<close>\<close>

text \<open>
  C1, as stated, fails. From the empty container \<^verbatim>\<open>ensureAllocatedSize (1)\<close> sets the capacity
  to \<open>(1 + 1/2 + 8) & ~7 = 8\<close>, whereas rounding \<open>1 + 1/2 + 8 = 9\<close> up to a multiple of 8 gives
  16: clearing the three low bits rounds down. And for a request of 2000000000 elements the
  \<^verbatim>\<open>int\<close> sum \<open>min + min/2 + 8\<close> wraps around, the capacity becomes negative and is below the
  request.
\<close>

theorem C1_round_up_counterexample:
  "numAllocated (ensureAllocatedSize trivial_type 1 (ArrayBase_default :: nat ArrayBase)) = 8
   \<and> round_up_to_multiple_of_8 (1 + 1 sdiv 2 + 8) = 16
   \<and> numAllocated (ensureAllocatedSize trivial_type 2000000000 (ArrayBase_default :: nat ArrayBase))
       = - 1294967288"
  by (simp add: ensureAllocatedSize_numAllocated ArrayBase_default_def
        round_up_to_multiple_of_8_def int32_def signed_divide_int_def)

text \<open>
  C1, amended. For every container with capacity \<open>c \<ge> 0\<close> and every requested minimum \<open>m\<close>:
  if \<open>m > c\<close> and \<open>m + m/2 + 8\<close> does not exceed \<open>INT_MAX\<close>, \<^verbatim>\<open>ensureAllocatedSize (m)\<close> sets
  the capacity to \<open>m + m/2 + 8\<close> rounded down to a multiple of 8, which is
  \<open>round_up_to_multiple_of_8 (m + m/2 + 1)\<close>; if \<open>m \<le> c\<close> the capacity is unchanged; in both
  cases the capacity is at least \<open>m\<close> afterwards.
\<close>

theorem C1_ensureAllocatedSize_capacity:
  assumes "0 \<le> numAllocated s"
  shows "(numAllocated s < m \<and> m + m sdiv 2 + 8 \<le> INT_MAX \<longrightarrow>
            numAllocated (ensureAllocatedSize tr m s) = 8 * ((m + m sdiv 2 + 8) div 8)
          \<and> numAllocated (ensureAllocatedSize tr m s) = round_up_to_multiple_of_8 (m + m sdiv 2 + 1))
       \<and> (m \<le> numAllocated s \<longrightarrow> numAllocated (ensureAllocatedSize tr m s) = numAllocated s)
       \<and> (m \<le> numAllocated s \<or> m + m sdiv 2 + 8 \<le> INT_MAX \<longrightarrow>
            m \<le> numAllocated (ensureAllocatedSize tr m s))"
proof -
  have grow: "numAllocated (ensureAllocatedSize tr m s) = 8 * ((m + m div 2 + 8) div 8)
              \<and> m sdiv 2 = m div 2"
    if "numAllocated s < m" "m + m sdiv 2 + 8 \<le> INT_MAX"
    using that assms grown_size [of m]
    by (simp add: ensureAllocatedSize_numAllocated sdiv_2_nonneg)
  have "m \<le> 8 * ((m + m div 2 + 8) div 8)" if "0 \<le> m"
    using that by linarith
  with grow assms show ?thesis
    by (auto simp: round_up_to_multiple_of_8_def ensureAllocatedSize_numAllocated)
qed

theorem C1_ensureAllocatedSize_capacity_witness:
  "numAllocated (ensureAllocatedSize class_type 20 (ArrayBase_default :: nat ArrayBase)) = 32
   \<and> round_up_to_multiple_of_8 (20 + 20 sdiv 2 + 1) = 32
   \<and> numAllocated (ensureAllocatedSize class_type 0 (ArrayBase_default :: nat ArrayBase)) = 0
   \<and> (20::int) \<le> numAllocated (ensureAllocatedSize class_type 20 (ArrayBase_default :: nat ArrayBase))"
  using C1_ensureAllocatedSize_capacity [of "ArrayBase_default :: nat ArrayBase" 20 class_type]
    C1_ensureAllocatedSize_capacity [of "ArrayBase_default :: nat ArrayBase" 0 class_type]
  by (simp add: ArrayBase_default_def INT_MAX_def round_up_to_multiple_of_8_def
        signed_divide_int_def)

subsection \<open>C2: \<open>0 \<le> numUsed \<le> numAllocated\<close> along every sequence of operations\<close>

text \<open>
  C2, as stated, fails: only \<^verbatim>\<open>removeElements\<close> is restricted to valid arguments, and the
  other operations break the invariant when called outside their contract. After \<^verbatim>\<open>add (1)\<close>,
  \<^verbatim>\<open>shrinkToNoMoreThan (0)\<close> releases the storage and leaves one element counted in a
  capacity of 0; \<^verbatim>\<open>insert (0, 1, -1)\<close> on the empty container leaves \<^verbatim>\<open>numUsed = -1\<close>; and
  \<^verbatim>\<open>addArray\<close> of 2000000000 elements computes a capacity that has wrapped around.
\<close>

theorem C2_invariant_counterexample:
  "numUsed (last (run class_type [Add (1::nat), ShrinkToNoMoreThan 0] ArrayBase_default)) = 1
   \<and> numAllocated (last (run class_type [Add (1::nat), ShrinkToNoMoreThan 0] ArrayBase_default)) = 0
   \<and> numUsed (last (run class_type [Insert 0 (1::nat) (- 1)] ArrayBase_default)) = - 1
   \<and> numUsed (last (run trivial_type
         [AddArray True (replicate 2000000000 (0::nat)) 2000000000] ArrayBase_default)) = 2000000000
   \<and> numAllocated (last (run trivial_type
         [AddArray True (replicate 2000000000 (0::nat)) 2000000000] ArrayBase_default))
       = - 1294967288"
  by (simp add: ArrayBase_default_def int32_def ensureAllocatedSize_numAllocated
        signed_divide_int_def)

text \<open>
  C2, amended. Starting from the empty container, along every sequence of operations in which
  each call is admissible in the state it is made in (counts not negative, requests within
  \<^verbatim>\<open>int\<close>, the preconditions of \<^verbatim>\<open>removeElements\<close> and \<^verbatim>\<open>setAllocatedSize\<close> met, also for
  \<^verbatim>\<open>shrinkToNoMoreThan\<close>), \<open>0 \<le> numUsed \<le> numAllocated\<close> holds after every operation.
\<close>

theorem C2_invariant:
  assumes "admissible_run tr ops ArrayBase_default"
  shows "\<forall>s \<in> set (run tr ops ArrayBase_default). 0 \<le> numUsed s \<and> numUsed s \<le> numAllocated s"
proof -
  have "well_formed (ArrayBase_default :: 'a ArrayBase)"
    by (simp add: well_formed_def ArrayBase_default_def INT_MAX_def)
  from run_well_formed [OF this assms] show ?thesis
    by (simp add: well_formed_def)
qed

theorem C2_invariant_witness:
  "admissible_run class_type
     [Add (1::nat), AddPack 2 [3, 4], AddArray True [5, 6] 2, AddArrayItems [7],
      AddArrayRange False [8, 9, 10] 1 (- 1), Insert 1 9 2, InsertArray 0 [11] 1,
      RemoveElements 1 2, Swap 0 1, Move 0 5, EnsureAllocatedSize 40, ShrinkToNoMoreThan 20,
      SetAllocatedSize 30, Clear, Add 12] ArrayBase_default
   \<and> list_all (\<lambda>s. 0 \<le> numUsed s \<and> numUsed s \<le> numAllocated s)
       (run class_type
         [Add (1::nat), AddPack 2 [3, 4], AddArray True [5, 6] 2, AddArrayItems [7],
          AddArrayRange False [8, 9, 10] 1 (- 1), Insert 1 9 2, InsertArray 0 [11] 1,
          RemoveElements 1 2, Swap 0 1, Move 0 5, EnsureAllocatedSize 40, ShrinkToNoMoreThan 20,
          SetAllocatedSize 30, Clear, Add 12] ArrayBase_default)"
proof -
  have adm: "admissible_run class_type
     [Add (1::nat), AddPack 2 [3, 4], AddArray True [5, 6] 2, AddArrayItems [7],
      AddArrayRange False [8, 9, 10] 1 (- 1), Insert 1 9 2, InsertArray 0 [11] 1,
      RemoveElements 1 2, Swap 0 1, Move 0 5, EnsureAllocatedSize 40, ShrinkToNoMoreThan 20,
      SetAllocatedSize 30, Clear, Add 12] ArrayBase_default"
    by (simp add: ArrayBase_default_def int32_def ensureAllocatedSize_numAllocated
        signed_divide_int_def can_hold_def INT_MAX_def addArray_items_sizes addArray_range_def
        removeElements_precondition_def Let_def)
  from C2_invariant [OF adm] adm show ?thesis
    by (simp only: list_all_iff simp_thms)
qed

subsection \<open>C3: \<^verbatim>\<open>insert\<close>\<close>

text \<open>
  C3 asks of \<^verbatim>\<open>insert (at, v, repeat)\<close> with \<open>0 \<le> at < len\<close> the sequence
  \<open>xs[0..at) @ (repeat copies of v) @ xs[at..len)\<close> for every \<open>repeat \<ge> 0\<close>, so for \<open>repeat = 0\<close> the
  sequence as it was. The source misses that case for an element type that is not trivially
  copyable: in \<^verbatim>\<open>createInsertSpaceInternal\<close> the pointers \<^verbatim>\<open>newEnd\<close> and \<^verbatim>\<open>end\<close> then coincide,
  so the loop move-constructs every element of \<open>[at, len)\<close> onto itself and destroys it.
  \<^verbatim>\<open>insert (1, 9, 0)\<close> on \<open>[1, 2, 3]\<close> destroys the elements at 2 and 1 and leaves their slots
  without an object while \<^verbatim>\<open>numUsed\<close> stays 3; a \<^verbatim>\<open>clear\<close> afterwards destroys them a second
  time. The \<^verbatim>\<open>memmove\<close> overload of the same function leaves the sequence as it was, as C3
  says (and \<^verbatim>\<open>removeElements\<close> guards its own zero count with
  \<^verbatim>\<open>if (numElementsToRemove > 0)\<close>).
\<close>

theorem C3_insert_zero_copies:
  "contents (add class_type 3 (add class_type 2 (add class_type (1::nat) ArrayBase_default)))
     = [Obj 1, Obj 2, Obj 3]
   \<and> destroyed (add class_type 3 (add class_type 2 (add class_type (1::nat) ArrayBase_default)))
     = []
   \<and> contents (insert_arr class_type 1 9 0
        (add class_type 3 (add class_type 2 (add class_type (1::nat) ArrayBase_default))))
     = [Obj 1, Raw, Raw]
   \<and> numUsed (insert_arr class_type 1 9 0
        (add class_type 3 (add class_type 2 (add class_type (1::nat) ArrayBase_default))))
     = 3
   \<and> destroyed (insert_arr class_type 1 9 0
        (add class_type 3 (add class_type 2 (add class_type (1::nat) ArrayBase_default))))
     = [2, 1]
   \<and> destroyed (clear (insert_arr class_type 1 9 0
        (add class_type 3 (add class_type 2 (add class_type (1::nat) ArrayBase_default)))))
     = [2, 1, 0, 1, 2]
   \<and> contents (insert_arr trivial_type 1 9 0
        (add trivial_type 3 (add trivial_type 2 (add trivial_type (1::nat) ArrayBase_default))))
     = [Obj 1, Obj 2, Obj 3]
   \<and> destroyed (insert_arr trivial_type 1 9 0
        (add trivial_type 3 (add trivial_type 2 (add trivial_type (1::nat) ArrayBase_default))))
     = []"
proof -
  let ?s = "add class_type 3 (add class_type 2 (add class_type (1::nat) ArrayBase_default))"
  let ?t = "add trivial_type 3 (add trivial_type 2 (add trivial_type (1::nat) ArrayBase_default))"
  have "contents ?s = [Obj 1, Obj 2, Obj 3]" by code_simp
  moreover have "destroyed ?s = []" by code_simp
  moreover have "contents (insert_arr class_type 1 9 0 ?s) = [Obj 1, Raw, Raw]" by code_simp
  moreover have "numUsed (insert_arr class_type 1 9 0 ?s) = 3" by code_simp
  moreover have "destroyed (insert_arr class_type 1 9 0 ?s) = [2, 1]" by code_simp
  moreover have "destroyed (clear (insert_arr class_type 1 9 0 ?s)) = [2, 1, 0, 1, 2]" by code_simp
  moreover have "contents (insert_arr trivial_type 1 9 0 ?t) = [Obj 1, Obj 2, Obj 3]" by code_simp
  moreover have "destroyed (insert_arr trivial_type 1 9 0 ?t) = []" by code_simp
  ultimately show ?thesis by simp
qed

subsection \<open>C4: \<^verbatim>\<open>removeElements\<close>\<close>

text \<open>
  C4. For every container with contents \<open>xs\<close> of length \<open>len\<close> and every \<open>at\<close>, \<open>count\<close> with
  \<open>0 \<le> at\<close>, \<open>0 \<le> count\<close>, \<open>at + count \<le> len\<close>: \<^verbatim>\<open>removeElements (at, count)\<close> yields
  \<open>xs[0..at) @ xs[at+count..len)\<close> with new length \<open>len - count\<close>; the elements before \<open>at\<close>
  keep their index and those from \<open>at + count\<close> on move down by \<open>count\<close>, in order; with
  \<open>count = 0\<close> the container is unchanged.
\<close>

theorem C4_removeElements:
  assumes "holds s xs" "removeElements_precondition at n s"
  shows "holds (removeElements tr at n s) (take (nat at) xs @ drop (nat (at + n)) xs)
       \<and> numUsed (removeElements tr at n s) = numUsed s - n
       \<and> (\<forall>j. 0 \<le> j \<and> j < at \<longrightarrow> elements (removeElements tr at n s) j = Obj (xs ! nat j))
       \<and> (\<forall>j. at \<le> j \<and> j < numUsed s - n \<longrightarrow>
             elements (removeElements tr at n s) j = Obj (xs ! nat (j + n)))
       \<and> (n = 0 \<longrightarrow> removeElements tr at n s = s)"
proof -
  from assms(2) have pre: "0 \<le> at" "0 \<le> n" "at + n \<le> numUsed s"
    by (simp_all add: removeElements_precondition_def)
  let ?ys = "take (nat at) xs @ drop (nat (at + n)) xs"
  have len: "numUsed s = int (length xs)" using assms(1) by (rule holds_length)
  have h': "holds (removeElements tr at n s) ?ys"
    using assms by (rule removeElements_holds)
  have u': "numUsed (removeElements tr at n s) = numUsed s - n"
    using holds_length [OF h'] pre len by simp
  have nth: "?ys ! nat j = (if j < at then xs ! nat j else xs ! nat (j + n))"
    if "0 \<le> j" "j < numUsed s - n" for j
    using nth_remove_list [of "nat at" "nat n" xs "nat j"] pre len that
    by (simp add: nat_add_distrib nat_less_iff)
  have el: "elements (removeElements tr at n s) j = Obj (?ys ! nat j)"
    if "0 \<le> j" "j < numUsed s - n" for j
    using holds_nth [OF h', of j] that u' by simp
  have before: "\<forall>j. 0 \<le> j \<and> j < at \<longrightarrow> elements (removeElements tr at n s) j = Obj (xs ! nat j)"
    using el nth pre by auto
  have after: "\<forall>j. at \<le> j \<and> j < numUsed s - n \<longrightarrow>
      elements (removeElements tr at n s) j = Obj (xs ! nat (j + n))"
    using el nth pre by auto
  have "n = 0 \<longrightarrow> removeElements tr at n s = s"
    by (simp add: removeElements_def)
  with h' u' before after show ?thesis by blast
qed

theorem C4_removeElements_witness:
  "holds (insert_arr unassignable_type 1 9 1
       (add unassignable_type 3 (add unassignable_type 2
         (add unassignable_type (1::nat) ArrayBase_default)))) [1, 9, 2, 3]
   \<and> removeElements_precondition 1 2 (insert_arr unassignable_type 1 9 1
       (add unassignable_type 3 (add unassignable_type 2
         (add unassignable_type (1::nat) ArrayBase_default))))
   \<and> contents (removeElements unassignable_type 1 2 (insert_arr unassignable_type 1 9 1
       (add unassignable_type 3 (add unassignable_type 2
         (add unassignable_type (1::nat) ArrayBase_default))))) = [Obj 1, Obj 3]
   \<and> numUsed (removeElements unassignable_type 1 2 (insert_arr unassignable_type 1 9 1
       (add unassignable_type 3 (add unassignable_type 2
         (add unassignable_type (1::nat) ArrayBase_default))))) = 2"
proof -
  let ?s = "insert_arr unassignable_type 1 9 1
       (add unassignable_type 3 (add unassignable_type 2
         (add unassignable_type (1::nat) ArrayBase_default)))"
  have h: "holds ?s [1, 9, 2, 3]" by code_simp
  have p: "removeElements_precondition 1 2 ?s" by code_simp
  have u: "numUsed ?s = 4" by code_simp
  from C4_removeElements [OF h p, of unassignable_type] h p u show ?thesis
    by (simp add: holds_def)
qed

subsection \<open>C5: \<^verbatim>\<open>move\<close>\<close>

text \<open>
  C5, as stated, fails on its own example. In \<^verbatim>\<open>move (0, 2)\<close> on \<open>[10, 11, 12, 13]\<close> the only
  index strictly between 0 and 2 is 1, so 12, at index 2, is one of the ``other elements'' the
  claim leaves unchanged; the code shifts it to index 1 as well, and must, since index 2 receives
  the relocated element.
\<close>

theorem C5_move_counterexample:
  "contents (add_pack class_type (10::nat) [11, 12, 13] ArrayBase_default)
     = [Obj 10, Obj 11, Obj 12, Obj 13]
   \<and> contents (move class_type 0 2 (add_pack class_type (10::nat) [11, 12, 13] ArrayBase_default))
     = [Obj 11, Obj 12, Obj 10, Obj 13]
   \<and> contents (move class_type 0 2 (add_pack class_type (10::nat) [11, 12, 13] ArrayBase_default)) ! 2
     \<noteq> contents (add_pack class_type (10::nat) [11, 12, 13] ArrayBase_default) ! 2"
  by code_simp

text \<open>
  C5, amended. For every container with contents \<open>xs\<close> of length \<open>len\<close> and all indices
  \<open>from\<close>, \<open>to\<close>: if \<open>from\<close> is in \<open>[0, len)\<close>, \<^verbatim>\<open>move (from, to)\<close> relocates \<open>xs[from]\<close> to
  index \<open>to'\<close> (\<open>to\<close> if that is in \<open>[0, len)\<close>, else \<open>len - 1\<close>) and shifts every element
  between \<open>from\<close> (exclusive) and \<open>to'\<close> (inclusive) by one slot towards \<open>from\<close>; the elements
  outside the range spanned by \<open>from\<close> and \<open>to'\<close>, and \<open>len\<close>, are unchanged. If \<open>from\<close> is not
  in \<open>[0, len)\<close> the call changes nothing. \<^verbatim>\<open>move (0, 2)\<close> on \<open>[a, b, c, d]\<close> yields
  \<open>[b, c, a, d]\<close>.
\<close>

theorem C5_move:
  assumes "holds s xs"
  shows "(isPositiveAndBelow from (numUsed s) \<longrightarrow>
           (let to' = (if isPositiveAndBelow to (numUsed s) then to else numUsed s - 1)
            in holds (move tr from to s) (list_move xs (nat from) (nat to'))
             \<and> elements (move tr from to s) to' = Obj (xs ! nat from)
             \<and> (\<forall>j. from < j \<and> j \<le> to' \<longrightarrow> elements (move tr from to s) (j - 1) = Obj (xs ! nat j))
             \<and> (\<forall>j. to' \<le> j \<and> j < from \<longrightarrow> elements (move tr from to s) (j + 1) = Obj (xs ! nat j))
             \<and> (\<forall>j. 0 \<le> j \<and> j < numUsed s \<and> (j < min from to' \<or> max from to' < j) \<longrightarrow>
                   elements (move tr from to s) j = Obj (xs ! nat j))))
       \<and> (\<not> isPositiveAndBelow from (numUsed s) \<longrightarrow> move tr from to s = s)
       \<and> numUsed (move tr from to s) = numUsed s
       \<and> (xs = [a, b, c, d] \<longrightarrow> holds (move tr 0 2 s) [b, c, a, d])"
proof -
  have len: "numUsed s = int (length xs)" using assms by (rule holds_length)
  have wf: "well_formed s" using assms by (rule holds_well_formed)
  have main: "holds (move tr f t s) (list_move xs (nat f) (nat t'))
      \<and> elements (move tr f t s) t' = Obj (xs ! nat f)
      \<and> (\<forall>j. f < j \<and> j \<le> t' \<longrightarrow> elements (move tr f t s) (j - 1) = Obj (xs ! nat j))
      \<and> (\<forall>j. t' \<le> j \<and> j < f \<longrightarrow> elements (move tr f t s) (j + 1) = Obj (xs ! nat j))
      \<and> (\<forall>j. 0 \<le> j \<and> j < numUsed s \<and> (j < min f t' \<or> max f t' < j) \<longrightarrow>
            elements (move tr f t s) j = Obj (xs ! nat j))"
    if f: "isPositiveAndBelow f (numUsed s)"
      and t': "t' = (if isPositiveAndBelow t (numUsed s) then t else numUsed s - 1)"
    for f t t'
  proof -
    from f have fr: "0 \<le> f" "f < numUsed s" by (simp_all add: isPositiveAndBelow_def)
    with t' have tr': "0 \<le> t'" "t' < numUsed s" by (auto simp: isPositiveAndBelow_def)
    have el: "elements (move tr f t s) j
        = (if j = t' then elements s f
           else if f \<le> j \<and> j < t' then elements s (j + 1)
           else if t' < j \<and> j \<le> f then elements s (j - 1)
           else elements s j)" for j
      using f t' by (simp add: move_elements Let_def)
    have obj: "elements s j = Obj (xs ! nat j)" if "0 \<le> j" "j < numUsed s" for j
      using holds_nth [OF assms that] .
    have h': "holds (move tr f t s) (list_move xs (nat f) (nat t'))"
    proof (rule holdsI)
      show "well_formed (move tr f t s)" using wf by (simp add: well_formed_def)
      show "numUsed (move tr f t s) = int (length (list_move xs (nat f) (nat t')))"
        using fr tr' len by simp
      fix j :: int
      assume j: "0 \<le> j" "j < int (length (list_move xs (nat f) (nat t')))"
      then have jb: "j < numUsed s" using fr tr' len by simp
      have "list_move xs (nat f) (nat t') ! nat j
          = (if j = t' then xs ! nat f
             else if f \<le> j \<and> j < t' then xs ! nat (j + 1)
             else if t' < j \<and> j \<le> f then xs ! nat (j - 1)
             else xs ! nat j)"
        using nth_list_move [of "nat f" xs "nat t'" "nat j"] fr tr' j(1) jb len
        by (auto simp: nat_add_distrib nat_diff_distrib nat_less_iff nat_le_iff)
      moreover have "elements s (j + 1) = Obj (xs ! nat (j + 1))" if "j < t'"
        using obj [of "j + 1"] that j(1) tr' by simp
      moreover have "elements s (j - 1) = Obj (xs ! nat (j - 1))" if "t' < j"
        using obj [of "j - 1"] that jb tr' by simp
      ultimately show "elements (move tr f t s) j = Obj (list_move xs (nat f) (nat t') ! nat j)"
        using obj [OF fr] obj [OF j(1) jb] by (auto simp: el)
    qed
    have 1: "elements (move tr f t s) t' = Obj (xs ! nat f)"
      using obj [OF fr] by (simp add: el)
    have 2: "\<forall>j. f < j \<and> j \<le> t' \<longrightarrow> elements (move tr f t s) (j - 1) = Obj (xs ! nat j)"
      using obj fr tr' by (auto simp: el)
    have 3: "\<forall>j. t' \<le> j \<and> j < f \<longrightarrow> elements (move tr f t s) (j + 1) = Obj (xs ! nat j)"
      using obj fr tr' by (auto simp: el)
    have 4: "\<forall>j. 0 \<le> j \<and> j < numUsed s \<and> (j < min f t' \<or> max f t' < j) \<longrightarrow>
            elements (move tr f t s) j = Obj (xs ! nat j)"
      using obj by (auto simp: el)
    from h' 1 2 3 4 show ?thesis by blast
  qed
  have ex: "holds (move tr 0 2 s) [b, c, a, d]" if "xs = [a, b, c, d]"
  proof -
    from that len have "isPositiveAndBelow 0 (numUsed s)" "isPositiveAndBelow 2 (numUsed s)"
      by (simp_all add: isPositiveAndBelow_def)
    with main [of 0 2 2] have "holds (move tr 0 2 s) (list_move xs (nat 0) (nat 2))" by simp
    moreover have "list_move [a, b, c, d] (nat 0) (nat 2) = [b, c, a, d]"
      by (simp add: list_move_def numeral_2_eq_2)
    ultimately show ?thesis using that by simp
  qed
  from main ex show ?thesis
    by (simp add: Let_def)
qed

theorem C5_move_witness:
  "holds (add_pack unassignable_type (10::nat) [11, 12, 13] ArrayBase_default) [10, 11, 12, 13]
   \<and> contents (move unassignable_type 0 2
        (add_pack unassignable_type (10::nat) [11, 12, 13] ArrayBase_default))
       = [Obj 11, Obj 12, Obj 10, Obj 13]
   \<and> contents (move unassignable_type 3 (- 1)
        (add_pack unassignable_type (10::nat) [11, 12, 13] ArrayBase_default))
       = [Obj 10, Obj 11, Obj 12, Obj 13]
   \<and> move unassignable_type 4 0 (add_pack unassignable_type (10::nat) [11, 12, 13] ArrayBase_default)
       = add_pack unassignable_type (10::nat) [11, 12, 13] ArrayBase_default"
proof -
  let ?s = "add_pack unassignable_type (10::nat) [11, 12, 13] ArrayBase_default"
  have h: "holds ?s [10, 11, 12, 13]" by code_simp
  have u: "numUsed ?s = 4" by code_simp
  have in0: "isPositiveAndBelow 0 (numUsed ?s)" and in3: "isPositiveAndBelow 3 (numUsed ?s)"
    and out4: "\<not> isPositiveAndBelow 4 (numUsed ?s)"
    unfolding u by (simp_all add: isPositiveAndBelow_def)
  note th = C5_move [OF h, of _ _ unassignable_type 10 11 12 13]
  from th [of 0 2] have a: "holds (move unassignable_type 0 2 ?s) [11, 12, 10, 13]"
    by blast
  from th [of 3 "- 1"] in3
  have "holds (move unassignable_type 3 (- 1) ?s)
          (list_move [10, 11, 12, 13] (nat 3) (nat (numUsed ?s - 1)))"
    unfolding Let_def by (simp add: isPositiveAndBelow_def)
  moreover have "list_move [10, 11, 12, 13::nat] (nat 3) (nat (4 - 1)) = [10, 11, 12, 13]"
    by (simp add: list_move_def numeral_3_eq_3)
  ultimately have b: "holds (move unassignable_type 3 (- 1) ?s) [10, 11, 12, 13]"
    unfolding u by simp
  from th [of 4 0] out4 have c: "move unassignable_type 4 0 ?s = ?s"
    by blast
  from a b c h show ?thesis
    by (simp add: holds_def)
qed

subsection \<open>C6: \<^verbatim>\<open>move\<close> there and back\<close>

text \<open>
  C6, as stated for all indices, fails when exactly one of the two is outside \<open>[0, len)\<close>: on
  \<open>[10, 11, 12]\<close>, \<^verbatim>\<open>move (0, 5)\<close> clamps 5 to the last index and gives \<open>[11, 12, 10]\<close>, and
  \<^verbatim>\<open>move (5, 0)\<close> then does nothing, because its source index is out of range.
\<close>

theorem C6_move_back_counterexample:
  "contents (add_pack class_type (10::nat) [11, 12] ArrayBase_default) = [Obj 10, Obj 11, Obj 12]
   \<and> contents (move class_type 5 0 (move class_type 0 5
        (add_pack class_type (10::nat) [11, 12] ArrayBase_default))) = [Obj 11, Obj 12, Obj 10]"
  by code_simp

text \<open>
  C6, amended. For every container state and all indices \<open>from\<close>, \<open>to\<close> that are both in
  \<open>[0, len)\<close> (or both outside it): \<^verbatim>\<open>move (from, to)\<close> followed by \<^verbatim>\<open>move (to, from)\<close>
  restores the original sequence: the same length and the same element in every slot.
\<close>

theorem C6_move_back:
  assumes "isPositiveAndBelow from (numUsed s) = isPositiveAndBelow to (numUsed s)"
  shows "elements (move tr to from (move tr from to s)) = elements s
       \<and> numUsed (move tr to from (move tr from to s)) = numUsed s
       \<and> contents (move tr to from (move tr from to s)) = contents s"
proof -
  have el: "elements (move tr to from (move tr from to s)) = elements s"
  proof (cases "isPositiveAndBelow from (numUsed s)")
    case True
    with assms have t: "isPositiveAndBelow to (numUsed s)" by simp
    have "elements (move tr to from (move tr from to s)) j = elements s j" for j
      using True t by (simp add: move_elements Let_def)
    then show ?thesis by (simp add: fun_eq_iff)
  next
    case False
    with assms show ?thesis by simp
  qed
  then show ?thesis
    by (simp add: contents_def)
qed

theorem C6_move_back_witness:
  "isPositiveAndBelow 0 (numUsed (add_pack class_type (10::nat) [11, 12, 13] ArrayBase_default))
     = isPositiveAndBelow 2 (numUsed (add_pack class_type (10::nat) [11, 12, 13] ArrayBase_default))
   \<and> contents (move class_type 0 2 (add_pack class_type (10::nat) [11, 12, 13] ArrayBase_default))
       = [Obj 11, Obj 12, Obj 10, Obj 13]
   \<and> contents (move class_type 2 0 (move class_type 0 2
        (add_pack class_type (10::nat) [11, 12, 13] ArrayBase_default)))
       = [Obj 10, Obj 11, Obj 12, Obj 13]"
proof -
  let ?s = "add_pack class_type (10::nat) [11, 12, 13] ArrayBase_default"
  have r: "isPositiveAndBelow 0 (numUsed ?s) = isPositiveAndBelow 2 (numUsed ?s)" by code_simp
  have c: "contents ?s = [Obj 10, Obj 11, Obj 12, Obj 13]" by code_simp
  have m: "contents (move class_type 0 2 ?s) = [Obj 11, Obj 12, Obj 10, Obj 13]" by code_simp
  from C6_move_back [OF r, of class_type] have "contents (move class_type 2 0 (move class_type 0 2 ?s)) = contents ?s"
    by blast
  with r c m show ?thesis by simp
qed

subsection \<open>C7: \<^verbatim>\<open>insert\<close> then \<^verbatim>\<open>removeElements\<close>\<close>

text \<open>
  C7, as stated for every index and every container, fails in two places. For an index outside
  \<open>[0, len]\<close>: \<^verbatim>\<open>insert (-1, 9, 1)\<close> on \<open>[1, 2]\<close> appends, giving \<open>[1, 2, 9]\<close>, and
  \<^verbatim>\<open>removeElements (-1, 1)\<close>, called against its precondition \<^verbatim>\<open>indexToRemoveAt >= 0\<close>, then
  shifts the whole sequence down by one slot: the container presents \<open>[2, 9]\<close>. And for a
  container that cannot grow within \<^verbatim>\<open>int\<close>: with 1500000000 elements in a block of that
  capacity, \<^verbatim>\<open>insert (0, 9, 1)\<close> asks for a capacity that wraps around to a negative number,
  \<^verbatim>\<open>setAllocatedSize\<close> releases the storage, and after \<^verbatim>\<open>removeElements (0, 1)\<close> slot 0 holds
  no object.
\<close>

theorem C7_insert_remove_counterexample:
  "contents (add class_type 2 (add class_type (1::nat) ArrayBase_default)) = [Obj 1, Obj 2]
   \<and> contents (insert_arr class_type (- 1) 9 1
        (add class_type 2 (add class_type (1::nat) ArrayBase_default))) = [Obj 1, Obj 2, Obj 9]
   \<and> contents (removeElements class_type (- 1) 1 (insert_arr class_type (- 1) 9 1
        (add class_type 2 (add class_type (1::nat) ArrayBase_default)))) = [Obj 2, Obj 9]
   \<and> well_formed (addArray trivial_type True (\<lambda>k. Obj (0::nat)) 1500000000
        (setAllocatedSize trivial_type 1500000000 ArrayBase_default))
   \<and> elements (addArray trivial_type True (\<lambda>k. Obj (0::nat)) 1500000000
        (setAllocatedSize trivial_type 1500000000 ArrayBase_default)) 0 = Obj 0
   \<and> elements (removeElements trivial_type 0 1 (insert_arr trivial_type 0 9 1
        (addArray trivial_type True (\<lambda>k. Obj (0::nat)) 1500000000
          (setAllocatedSize trivial_type 1500000000 ArrayBase_default)))) 0 = Raw"
proof -
  have "contents (add class_type 2 (add class_type (1::nat) ArrayBase_default)) = [Obj 1, Obj 2]
   \<and> contents (insert_arr class_type (- 1) 9 1
        (add class_type 2 (add class_type (1::nat) ArrayBase_default))) = [Obj 1, Obj 2, Obj 9]
   \<and> contents (removeElements class_type (- 1) 1 (insert_arr class_type (- 1) 9 1
        (add class_type 2 (add class_type (1::nat) ArrayBase_default)))) = [Obj 2, Obj 9]"
    by code_simp
  moreover have "well_formed (addArray trivial_type True (\<lambda>k. Obj (0::nat)) 1500000000
        (setAllocatedSize trivial_type 1500000000 ArrayBase_default))
   \<and> elements (addArray trivial_type True (\<lambda>k. Obj (0::nat)) 1500000000
        (setAllocatedSize trivial_type 1500000000 ArrayBase_default)) 0 = Obj 0
   \<and> elements (removeElements trivial_type 0 1 (insert_arr trivial_type 0 9 1
        (addArray trivial_type True (\<lambda>k. Obj (0::nat)) 1500000000
          (setAllocatedSize trivial_type 1500000000 ArrayBase_default)))) 0 = Raw"
    by (simp add: well_formed_def INT_MAX_def insert_arr_def createInsertSpace_def Let_def
        ensureAllocatedSize_def setAllocatedSize_def HeapBlock_free_def insert_loop_once
        isPositiveAndBelow_def int32_def ArrayBase_default_def addArray_def addArrayInternal_def
        memcpy_in_def setAllocatedSizeInternal_def HeapBlock_realloc_def trivial_type_def
        signed_divide_int_def createInsertSpaceInternal_def memmove_def removeElements_def
        removeElementsInternal_def)
  ultimately show ?thesis by simp
qed

text \<open>
  C7, amended. For every container with contents \<open>xs\<close> of length \<open>len\<close> that can take one more
  element, every value \<open>v\<close> and every index \<open>0 \<le> i \<le> len\<close>: \<^verbatim>\<open>insert (i, v, 1)\<close> followed by
  \<^verbatim>\<open>removeElements (i, 1)\<close> restores \<open>xs\<close>: same length, elementwise equal.
\<close>

theorem C7_insert_remove:
  assumes "holds s xs" "can_hold s 1" "0 \<le> i" "i \<le> numUsed s"
  shows "holds (removeElements tr i 1 (insert_arr tr i v 1 s)) xs
       \<and> contents (removeElements tr i 1 (insert_arr tr i v 1 s)) = contents s
       \<and> numUsed (removeElements tr i 1 (insert_arr tr i v 1 s)) = numUsed s"
proof -
  have len: "numUsed s = int (length xs)" using assms(1) by (rule holds_length)
  define ys where "ys = take (nat i) xs @ replicate (nat 1) v @ drop (nat i) xs"
  have h1: "holds (insert_arr tr i v 1 s) ys"
  proof (cases "i < numUsed s")
    case True
    with assms show ?thesis
      unfolding ys_def by (intro insert_arr_holds_inside) simp_all
  next
    case False
    with assms have "i = numUsed s" by simp
    with len have ys: "ys = xs @ replicate (nat 1) v" by (simp add: ys_def)
    have out: "\<not> isPositiveAndBelow i (numUsed s)"
      using False by (simp add: isPositiveAndBelow_def)
    show ?thesis
      unfolding ys using assms(1) _ assms(2) out by (rule insert_arr_holds_append) simp
  qed
  have u1: "numUsed (insert_arr tr i v 1 s) = numUsed s + 1"
    using holds_length [OF h1] len assms(3,4) by (simp add: ys_def)
  have pre: "removeElements_precondition i 1 (insert_arr tr i v 1 s)"
    unfolding removeElements_precondition_def u1 using assms(3,4) by simp
  have "take (nat i) ys @ drop (nat (i + 1)) ys = xs"
    using assms(3,4) len by (simp add: ys_def nat_add_distrib min_def)
  with removeElements_holds [OF h1 pre, of tr]
  have h2: "holds (removeElements tr i 1 (insert_arr tr i v 1 s)) xs" by simp
  from h2 assms(1) holds_length [OF h2] len show ?thesis
    by (simp add: holds_def)
qed

theorem C7_insert_remove_witness:
  "holds (add class_type 2 (add class_type (1::nat) ArrayBase_default)) [1, 2]
   \<and> can_hold (add class_type 2 (add class_type (1::nat) ArrayBase_default)) 1
   \<and> contents (removeElements class_type 1 1 (insert_arr class_type 1 9 1
        (add class_type 2 (add class_type (1::nat) ArrayBase_default)))) = [Obj 1, Obj 2]
   \<and> contents (removeElements class_type 2 1 (insert_arr class_type 2 9 1
        (add class_type 2 (add class_type (1::nat) ArrayBase_default)))) = [Obj 1, Obj 2]"
proof -
  let ?s = "add class_type 2 (add class_type (1::nat) ArrayBase_default)"
  have h: "holds ?s [1, 2]" by code_simp
  have c: "can_hold ?s 1" by code_simp
  have u: "numUsed ?s = 2" by code_simp
  from C7_insert_remove [OF h c, of 1 class_type 9] C7_insert_remove [OF h c, of 2 class_type 9]
    h c u show ?thesis
    by (simp add: holds_def)
qed

subsection \<open>C8: \<^verbatim>\<open>operator==\<close>\<close>

text \<open>
  C8, as stated, fails in its last part: the comparison is only as reflexive as the element
  type's own \<^verbatim>\<open>operator==\<close>. A container holding one NaN does not equal itself.
\<close>

theorem C8_operator_eq_counterexample:
  "contents (add trivial_type None ArrayBase_default :: int option ArrayBase) = [Obj None]
   \<and> \<not> operator_eq float_eq (add trivial_type None ArrayBase_default)
          (add trivial_type None ArrayBase_default)"
  by code_simp

text \<open>
  C8, amended. For all containers \<open>a\<close> and \<open>b\<close> with contents \<open>xs\<close> and \<open>ys\<close>, \<open>a == b\<close> is
  true iff \<open>xs\<close> and \<open>ys\<close> have the same length and every corresponding pair compares equal
  under the element types' equality \<open>eq\<close>; it is false on any length mismatch; when the pair
  at index \<open>k\<close> is the first unequal one, the loop returns false having compared the pairs
  \<open>0, \<dots>, k\<close> and no other; \<open>a == a\<close> holds iff every element of \<open>a\<close> equals itself under
  \<open>eq\<close>, so the relation is reflexive where \<open>eq\<close> is; and \<open>b == a\<close> under the converse
  equality is \<open>a == b\<close>, so the relation is symmetric where \<open>eq\<close> is.
\<close>

theorem C8_operator_eq:
  assumes "holds a xs" "holds b ys"
  shows "(operator_eq eq a b \<longleftrightarrow> length xs = length ys \<and> list_all2 eq xs ys)
       \<and> (length xs \<noteq> length ys \<longrightarrow> \<not> operator_eq eq a b)
       \<and> (\<forall>k. length xs = length ys \<and> k < length xs \<and> \<not> eq (xs ! k) (ys ! k)
                \<and> (\<forall>i < k. eq (xs ! i) (ys ! i)) \<longrightarrow>
              operator_eq_loop eq (elements a) 0 (contents b) = (False, int k + 1))
       \<and> (operator_eq eqa a a \<longleftrightarrow> (\<forall>x \<in> set xs. eqa x x))
       \<and> ((\<forall>x y. eq' y x = eq x y) \<longrightarrow> operator_eq eq' b a = operator_eq eq a b)"
proof -
  have iff: "operator_eq eq a b \<longleftrightarrow> length xs = length ys \<and> list_all2 eq xs ys"
    using operator_eq_holds [OF assms, of eq] by (auto simp: list_all2_conv_all_nth)
  have mismatch: "length xs \<noteq> length ys \<longrightarrow> \<not> operator_eq eq a b"
    using iff by simp
  have short: "operator_eq_loop eq (elements a) 0 (contents b) = (False, int k + 1)"
    if "length xs = length ys" "k < length xs" "\<not> eq (xs ! k) (ys ! k)"
      "\<forall>i < k. eq (xs ! i) (ys ! i)" for k
  proof -
    have sl: "slot_eq eq (elements a (0 + int i)) (contents b ! i) \<longleftrightarrow> eq (xs ! i) (ys ! i)"
      if "i < length ys" for i
      using that \<open>length xs = length ys\<close> holds_nth [OF assms(1), of "int i"]
        holds_length [OF assms(1)]
      by (simp add: holds_contents [OF assms(2)])
    have "operator_eq_loop eq (elements a) 0 (contents b) = (False, 0 + int k + 1)"
    proof (rule operator_eq_loop_short_circuit)
      show "k < length (contents b)"
        using that by (simp add: holds_contents [OF assms(2)])
      show "\<not> slot_eq eq (elements a (0 + int k)) (contents b ! k)"
        using that sl [of k] by simp
      show "\<forall>i < k. slot_eq eq (elements a (0 + int i)) (contents b ! i)"
        using that sl by simp
    qed
    then show ?thesis by simp
  qed
  have refl: "operator_eq eqa a a \<longleftrightarrow> (\<forall>x \<in> set xs. eqa x x)"
    using operator_eq_holds [OF assms(1) assms(1), of eqa] by (auto simp: all_set_conv_all_nth)
  have sym: "operator_eq eq' b a = operator_eq eq a b" if "\<forall>x y. eq' y x = eq x y"
    using operator_eq_holds [OF assms, of eq] operator_eq_holds [OF assms(2) assms(1), of eq'] that
    by auto
  from iff mismatch short refl sym show ?thesis
    by blast
qed

theorem C8_operator_eq_witness:
  "holds (add_pack class_type (1::nat) [2, 3] ArrayBase_default) [1, 2, 3]
   \<and> holds (add_pack trivial_type (1::nat) [2] ArrayBase_default) [1, 2]
   \<and> holds (add_pack trivial_type (1::nat) [2, 4] ArrayBase_default) [1, 2, 4]
   \<and> operator_eq (=) (add_pack class_type (1::nat) [2, 3] ArrayBase_default)
        (add_pack class_type (1::nat) [2, 3] ArrayBase_default)
   \<and> \<not> operator_eq (=) (add_pack class_type (1::nat) [2, 3] ArrayBase_default)
        (add_pack trivial_type (1::nat) [2] ArrayBase_default)
   \<and> \<not> operator_eq (=) (add_pack class_type (1::nat) [2, 3] ArrayBase_default)
        (add_pack trivial_type (1::nat) [2, 4] ArrayBase_default)
   \<and> operator_eq_loop (=) (elements (add_pack class_type (1::nat) [2, 3] ArrayBase_default)) 0
        (contents (add_pack trivial_type (1::nat) [2, 4] ArrayBase_default)) = (False, 3)"
proof -
  let ?a = "add_pack class_type (1::nat) [2, 3] ArrayBase_default"
  let ?b = "add_pack trivial_type (1::nat) [2] ArrayBase_default"
  let ?c = "add_pack trivial_type (1::nat) [2, 4] ArrayBase_default"
  have a: "holds ?a [1, 2, 3]" and b: "holds ?b [1, 2]" and c: "holds ?c [1, 2, 4]"
    by code_simp+
  have 1: "operator_eq (=) ?a ?a"
    using C8_operator_eq [OF a a, of "(=)" "(=)" "(=)"] by simp
  have 2: "\<not> operator_eq (=) ?a ?b"
    using C8_operator_eq [OF a b, of "(=)" "(=)" "(=)"] by simp
  have 3: "\<not> operator_eq (=) ?a ?c"
    using C8_operator_eq [OF a c, of "(=)" "(=)" "(=)"] by simp
  have "\<forall>k. length [1, 2, 3::nat] = length [1, 2, 4::nat] \<and> k < length [1, 2, 3::nat]
            \<and> \<not> [1, 2, 3::nat] ! k = [1, 2, 4::nat] ! k
            \<and> (\<forall>i < k. [1, 2, 3::nat] ! i = [1, 2, 4::nat] ! i) \<longrightarrow>
          operator_eq_loop (=) (elements ?a) 0 (contents ?c) = (False, int k + 1)"
    using C8_operator_eq [OF a c, of "(=)" "(=)" "(=)"] by blast
  from this [rule_format, of 2] have 4: "operator_eq_loop (=) (elements ?a) 0 (contents ?c) = (False, 3)"
    by (simp add: less_Suc_eq numeral_2_eq_2)
  from a b c 1 2 3 4 show ?thesis by blast
qed

subsection \<open>C9: \<^verbatim>\<open>clear\<close>\<close>

text \<open>
  C9. For every container state, \<^verbatim>\<open>clear()\<close> calls the destructor on the slots
  \<open>0, \<dots>, len - 1\<close>, in this order and on nothing else, so each live element is destroyed exactly
  once; afterwards no live slot holds an object, \<open>len\<close> is 0 and the capacity is what it was.
  A following \<^verbatim>\<open>add\<close>, when the capacity is at least 1, leaves the capacity and the block
  alone and constructs its element in slot 0; and in any state a call of \<^verbatim>\<open>add\<close> with
  \<open>size() + 1 \<le> capacity\<close> does not reallocate.
\<close>

theorem C9_clear:
  "destroyed (clear s) = destroyed s @ [0..numUsed s - 1]
   \<and> (\<forall>j. count_list [0..numUsed s - 1] j = (if 0 \<le> j \<and> j < numUsed s then 1 else 0))
   \<and> (\<forall>j. 0 \<le> j \<and> j < numUsed s \<longrightarrow> elements (clear s) j = Raw)
   \<and> numUsed (clear s) = 0
   \<and> numAllocated (clear s) = numAllocated s
   \<and> (1 \<le> numAllocated s \<longrightarrow>
         ensureAllocatedSize tr (int32 (numUsed (clear s) + 1)) (clear s) = clear s
       \<and> numAllocated (add tr v (clear s)) = numAllocated s
       \<and> contents (add tr v (clear s)) = [Obj v])
   \<and> (is_int (numUsed t + 1) \<and> numUsed t + 1 \<le> numAllocated t \<longrightarrow>
         ensureAllocatedSize tr (int32 (numUsed t + 1)) t = t
       \<and> numAllocated (add tr v t) = numAllocated t)"
proof -
  have d: "destroyed (clear s) = destroyed s @ [0..numUsed s - 1]"
    by (simp add: clear_def clear_loop_destroyed)
  have c: "\<forall>j. count_list [0..numUsed s - 1] j = (if 0 \<le> j \<and> j < numUsed s then 1 else 0)"
    by (auto simp: count_list_upto)
  have e: "\<forall>j. 0 \<le> j \<and> j < numUsed s \<longrightarrow> elements (clear s) j = Raw"
    by (simp add: clear_def clear_loop_elements)
  have one: "int32 1 = 1" by (simp add: int32_def)
  have a: "ensureAllocatedSize tr (int32 (numUsed (clear s) + 1)) (clear s) = clear s
       \<and> numAllocated (add tr v (clear s)) = numAllocated s
       \<and> contents (add tr v (clear s)) = [Obj v]" if "1 \<le> numAllocated s"
  proof -
    have en: "ensureAllocatedSize tr (int32 (numUsed (clear s) + 1)) (clear s) = clear s"
      using that by (simp add: ensureAllocatedSize_def one)
    then have "add tr v (clear s) = addAssumingCapacityIsReady v (clear s)"
      by (simp add: add_def)
    then have "contents (add tr v (clear s)) = [Obj v]"
      by (simp add: contents_def addAssumingCapacityIsReady_def one)
    with en that show ?thesis
      by (simp add: ensureAllocatedSize_numAllocated one)
  qed
  have g: "ensureAllocatedSize tr (int32 (numUsed t + 1)) t = t
       \<and> numAllocated (add tr v t) = numAllocated t"
    if "is_int (numUsed t + 1)" "numUsed t + 1 \<le> numAllocated t"
    using that by (simp add: int32_id ensureAllocatedSize_def)
  from d c e a g show ?thesis
    by simp
qed

theorem C9_clear_witness:
  "destroyed (clear (add class_type 3 (add class_type 2 (add class_type (1::nat) ArrayBase_default))))
     = [0, 1, 2]
   \<and> numUsed (clear (add class_type 3 (add class_type 2 (add class_type (1::nat) ArrayBase_default))))
       = 0
   \<and> numAllocated
        (clear (add class_type 3 (add class_type 2 (add class_type (1::nat) ArrayBase_default)))) = 8
   \<and> numAllocated (add class_type 7
        (clear (add class_type 3 (add class_type 2 (add class_type (1::nat) ArrayBase_default))))) = 8
   \<and> contents (add class_type 7
        (clear (add class_type 3 (add class_type 2 (add class_type (1::nat) ArrayBase_default)))))
       = [Obj 7]"
proof -
  let ?s = "add class_type 3 (add class_type 2 (add class_type (1::nat) ArrayBase_default))"
  have u: "numUsed ?s = 3" and a: "numAllocated ?s = 8" and d: "destroyed ?s = []"
    by code_simp+
  have l: "[0..(2::int)] = [0, 1, 2]" by code_simp
  from C9_clear [of ?s class_type 7 ?s] have
    "destroyed (clear ?s) = destroyed ?s @ [0..numUsed ?s - 1]"
    "numUsed (clear ?s) = 0"
    "numAllocated (clear ?s) = numAllocated ?s"
    "1 \<le> numAllocated ?s \<longrightarrow> numAllocated (add class_type 7 (clear ?s)) = numAllocated ?s
       \<and> contents (add class_type 7 (clear ?s)) = [Obj 7]"
    by blast+
  then show ?thesis
    unfolding u a d using l by simp
qed

subsection \<open>C10: \<^verbatim>\<open>insert\<close> at a negative index\<close>

text \<open>
  C10. For every container with contents \<open>xs\<close> of length \<open>len\<close>, every value \<open>v\<close>, every negative
  index \<open>at\<close> and every \<open>repeat \<ge> 0\<close>: \<^verbatim>\<open>insert (at, v, repeat)\<close> is the very call
  \<^verbatim>\<open>insert (len, v, repeat)\<close>, since \<^verbatim>\<open>createInsertSpace\<close> takes every index that is not
  positive and below \<^verbatim>\<open>numUsed\<close> to the end; it yields \<open>xs @ (repeat copies of v)\<close>, of length
  \<open>len + repeat\<close>, and nothing is inserted at the front. The result is stated where the call is
  defined in the source, that is, where its \<^verbatim>\<open>int\<close> computations (\<open>len + repeat\<close> and, when the
  block must grow, the size \<^verbatim>\<open>ensureAllocatedSize\<close> asks for) do not overflow: \<open>can_hold\<close>.
\<close>

theorem C10_insert_negative_index:
  assumes "holds s xs" "at < 0"
  shows "insert_arr tr at v n s = insert_arr tr (numUsed s) v n s
       \<and> (0 \<le> n \<and> can_hold s n \<longrightarrow>
            holds (insert_arr tr at v n s) (xs @ replicate (nat n) v)
          \<and> numUsed (insert_arr tr at v n s) = numUsed s + n)"
proof -
  have out: "\<not> isPositiveAndBelow at (numUsed s)"
    using assms(2) by (simp add: isPositiveAndBelow_def)
  have "createInsertSpace tr at n s = createInsertSpace tr (numUsed s) n s"
    using assms(2) by (simp add: createInsertSpace_def Let_def isPositiveAndBelow_def)
  then have same: "insert_arr tr at v n s = insert_arr tr (numUsed s) v n s"
    by (simp add: insert_arr_def)
  have "holds (insert_arr tr at v n s) (xs @ replicate (nat n) v)
      \<and> numUsed (insert_arr tr at v n s) = numUsed s + n" if "0 \<le> n" "can_hold s n"
  proof -
    have h': "holds (insert_arr tr at v n s) (xs @ replicate (nat n) v)"
      using assms(1) that out by (rule insert_arr_holds_append)
    from holds_length [OF h'] holds_length [OF assms(1)] that(1) h' show ?thesis by simp
  qed
  with same show ?thesis by blast
qed

theorem C10_insert_negative_index_witness:
  "holds (add class_type 2 (add class_type (1::nat) ArrayBase_default)) [1, 2]
   \<and> contents (insert_arr class_type (- 3) 7 2
        (add class_type 2 (add class_type (1::nat) ArrayBase_default)))
       = [Obj 1, Obj 2, Obj 7, Obj 7]
   \<and> insert_arr class_type (- 3) 7 2 (add class_type 2 (add class_type (1::nat) ArrayBase_default))
       = insert_arr class_type 2 7 2 (add class_type 2 (add class_type (1::nat) ArrayBase_default))"
proof -
  let ?s = "add class_type 2 (add class_type (1::nat) ArrayBase_default)"
  have h: "holds ?s [1, 2]" by code_simp
  have c: "can_hold ?s 2" by code_simp
  have u: "numUsed ?s = 2" by code_simp
  have r: "replicate (nat 2) (7::nat) = [7, 7]" by (simp add: numeral_2_eq_2)
  have z: "(0::int) \<le> 2" by simp
  have m: "(- 3::int) < 0" by simp
  note th = C10_insert_negative_index [OF h m, of class_type 7 2]
  from th have same: "insert_arr class_type (- 3) 7 2 ?s = insert_arr class_type (numUsed ?s) 7 2 ?s"
    by (simp only: simp_thms)
  from th c z have app: "holds (insert_arr class_type (- 3) 7 2 ?s) ([1, 2] @ replicate (nat 2) 7)"
    by blast
  from app have "contents (insert_arr class_type (- 3) 7 2 ?s) = [Obj 1, Obj 2, Obj 7, Obj 7]"
    unfolding r by (simp add: holds_def)
  with same h show ?thesis
    unfolding u by simp
qed

subsection \<open>Further properties of the source\<close>

text \<open>
  \<^verbatim>\<open>insert\<close> with at least one copy, or on the \<^verbatim>\<open>memmove\<close> path. For every container with
  contents \<open>xs\<close> of length \<open>len\<close>, every value \<open>v\<close> and every \<open>repeat \<ge> 0\<close> whose size
  computations stay within \<^verbatim>\<open>int\<close>: if \<open>0 \<le> at < len\<close> and \<open>repeat \<ge> 1\<close> (or the element type is
  trivially copyable), \<^verbatim>\<open>insert (at, v, repeat)\<close> yields
  \<open>xs[0..at) @ (repeat copies of v) @ xs[at..len)\<close>; if \<open>at \<ge> len\<close> it yields
  \<open>xs @ (repeat copies of v)\<close>; the new length is \<open>len + repeat\<close>.
\<close>

theorem insert_correct:
  assumes "holds s xs" "0 \<le> n" "can_hold s n"
  shows "(0 \<le> at \<and> at < numUsed s \<and> (1 \<le> n \<or> is_trivially_copyable tr) \<longrightarrow>
           holds (insert_arr tr at v n s)
             (take (nat at) xs @ replicate (nat n) v @ drop (nat at) xs))
       \<and> (numUsed s \<le> at \<longrightarrow> holds (insert_arr tr at v n s) (xs @ replicate (nat n) v))
       \<and> numUsed (insert_arr tr at v n s) = numUsed s + n"
proof (intro conjI impI)
  assume a: "0 \<le> at \<and> at < numUsed s \<and> (1 \<le> n \<or> is_trivially_copyable tr)"
  with assms(2) have "0 < n \<or> (is_trivially_copyable tr \<and> n = 0)" by linarith
  with a assms show "holds (insert_arr tr at v n s)
      (take (nat at) xs @ replicate (nat n) v @ drop (nat at) xs)"
    by (simp add: insert_arr_holds_inside)
next
  assume "numUsed s \<le> at"
  then have "\<not> isPositiveAndBelow at (numUsed s)" by (simp add: isPositiveAndBelow_def)
  with assms show "holds (insert_arr tr at v n s) (xs @ replicate (nat n) v)"
    by (simp add: insert_arr_holds_append)
next
  have "is_int (numUsed s + n)"
    using assms by (intro can_hold_is_int holds_well_formed)
  then show "numUsed (insert_arr tr at v n s) = numUsed s + n"
    by (simp add: int32_id)
qed

theorem insert_correct_witness:
  "holds (add class_type 3 (add class_type 2 (add class_type (1::nat) ArrayBase_default))) [1, 2, 3]
   \<and> contents (insert_arr class_type 1 9 1
        (add class_type 3 (add class_type 2 (add class_type (1::nat) ArrayBase_default))))
       = [Obj 1, Obj 9, Obj 2, Obj 3]
   \<and> contents (insert_arr class_type 3 9 2
        (add class_type 3 (add class_type 2 (add class_type (1::nat) ArrayBase_default))))
       = [Obj 1, Obj 2, Obj 3, Obj 9, Obj 9]"
proof -
  let ?s = "add class_type 3 (add class_type 2 (add class_type (1::nat) ArrayBase_default))"
  have h: "holds ?s [1, 2, 3]" by code_simp
  have c: "can_hold ?s 1" "can_hold ?s 2" by code_simp+
  have u: "numUsed ?s = 3" by code_simp
  from insert_correct [OF h _ c(1), of 1 class_type 9]
    insert_correct [OF h _ c(2), of 3 class_type 9] h u
  show ?thesis
    by (simp add: holds_def numeral_2_eq_2)
qed

text \<open>
  \<^verbatim>\<open>add\<close> is \<^verbatim>\<open>insert\<close> at the end with a count of 1: for every container that holds \<open>xs\<close>
  and can take one more element, \<^verbatim>\<open>add (v)\<close> yields \<open>xs @ [v]\<close>; \<^verbatim>\<open>getLast()\<close> then reads
  \<open>v\<close>, and \<^verbatim>\<open>size()\<close> has grown by exactly 1.
\<close>

lemma add_is_insert_at_end: "add tr v s = insert_arr tr (numUsed s) v 1 s"
  by (simp add: add_def insert_arr_def createInsertSpace_def Let_def isPositiveAndBelow_def
      insert_loop_once addAssumingCapacityIsReady_def)

theorem add_read_back:
  assumes "holds s xs" "can_hold s 1"
  shows "holds (add tr v s) (xs @ [v])
       \<and> getLast dflt (add tr v s) = Obj v
       \<and> size_arr (add tr v s) = size_arr s + 1"
proof -
  have out: "\<not> isPositiveAndBelow (numUsed s) (numUsed s)"
    by (simp add: isPositiveAndBelow_def)
  have "holds (insert_arr tr (numUsed s) v 1 s) (xs @ replicate (nat 1) v)"
    using assms(1) _ assms(2) out by (rule insert_arr_holds_append) simp
  then have h: "holds (add tr v s) (xs @ [v])"
    by (simp add: add_is_insert_at_end)
  have len: "numUsed (add tr v s) = int (length xs) + 1"
    using holds_length [OF h] by simp
  have "elements (add tr v s) (int (length xs)) = Obj ((xs @ [v]) ! nat (int (length xs)))"
    using len by (intro holds_nth [OF h]) simp_all
  then have "getLast dflt (add tr v s) = Obj v"
    unfolding getLast_def len by simp
  with h len holds_length [OF assms(1)] show ?thesis
    unfolding size_arr_def by simp
qed

theorem add_read_back_witness:
  "holds (add class_type 2 (add class_type (1::nat) ArrayBase_default)) [1, 2]
   \<and> can_hold (add class_type 2 (add class_type (1::nat) ArrayBase_default)) 1
   \<and> contents (add class_type 3 (add class_type 2 (add class_type (1::nat) ArrayBase_default)))
       = [Obj 1, Obj 2, Obj 3]
   \<and> getLast 0 (add class_type 3 (add class_type 2 (add class_type (1::nat) ArrayBase_default)))
       = Obj 3"
proof -
  let ?s = "add class_type 2 (add class_type (1::nat) ArrayBase_default)"
  have h: "holds ?s [1, 2]" and c: "can_hold ?s 1" by code_simp+
  from add_read_back [OF h c, of class_type 3 0] h c show ?thesis
    by (simp add: holds_def)
qed

lemma swap_holds:
  assumes "holds s xs"
  shows "(isPositiveAndBelow i (numUsed s) \<and> isPositiveAndBelow j (numUsed s) \<longrightarrow>
            holds (swap i j s) (xs[nat i := xs ! nat j, nat j := xs ! nat i]))
       \<and> (\<not> (isPositiveAndBelow i (numUsed s) \<and> isPositiveAndBelow j (numUsed s)) \<longrightarrow>
            swap i j s = s)"
proof (intro conjI impI)
  assume r: "isPositiveAndBelow i (numUsed s) \<and> isPositiveAndBelow j (numUsed s)"
  then have ij: "0 \<le> i" "i < numUsed s" "0 \<le> j" "j < numUsed s"
    by (simp_all add: isPositiveAndBelow_def)
  have len: "numUsed s = int (length xs)" using assms by (rule holds_length)
  show "holds (swap i j s) (xs[nat i := xs ! nat j, nat j := xs ! nat i])"
  proof (rule holdsI)
    show "well_formed (swap i j s)"
      using holds_well_formed [OF assms] by (simp add: well_formed_def)
    show "numUsed (swap i j s) = int (length (xs[nat i := xs ! nat j, nat j := xs ! nat i]))"
      using len by simp
    fix k :: int
    assume k: "0 \<le> k" "k < int (length (xs[nat i := xs ! nat j, nat j := xs ! nat i]))"
    then have kb: "k < numUsed s" using len by simp
    have "elements (swap i j s) k
        = (if k = j then elements s i else if k = i then elements s j else elements s k)"
      using r by (simp add: swap_def)
    moreover have "xs[nat i := xs ! nat j, nat j := xs ! nat i] ! nat k
        = (if k = j then xs ! nat i else if k = i then xs ! nat j else xs ! nat k)"
      using ij k(1) kb len by (auto simp: nth_list_update)
    ultimately show "elements (swap i j s) k
        = Obj (xs[nat i := xs ! nat j, nat j := xs ! nat i] ! nat k)"
      using holds_nth [OF assms ij(1,2)] holds_nth [OF assms ij(3,4)] holds_nth [OF assms k(1) kb]
      by simp
  qed
next
  assume "\<not> (isPositiveAndBelow i (numUsed s) \<and> isPositiveAndBelow j (numUsed s))"
  then show "swap i j s = s" by (auto simp: swap_def)
qed

text \<open>
  \<^verbatim>\<open>swap (i, j)\<close> exchanges the elements at two valid indices and leaves every other element
  and the counters alone; with either index out of range it changes nothing.
\<close>

theorem swap_exchanges:
  assumes "holds s xs"
  shows "(isPositiveAndBelow i (numUsed s) \<and> isPositiveAndBelow j (numUsed s) \<longrightarrow>
            holds (swap i j s) (xs[nat i := xs ! nat j, nat j := xs ! nat i]))
       \<and> (\<not> (isPositiveAndBelow i (numUsed s) \<and> isPositiveAndBelow j (numUsed s)) \<longrightarrow>
            swap i j s = s)"
  using assms by (rule swap_holds)

theorem swap_exchanges_witness:
  "holds (add_pack class_type (1::nat) [3] ArrayBase_default) [1, 3]
   \<and> contents (swap 0 1 (add_pack class_type (1::nat) [3] ArrayBase_default)) = [Obj 3, Obj 1]
   \<and> swap 0 2 (add_pack class_type (1::nat) [3] ArrayBase_default)
       = add_pack class_type (1::nat) [3] ArrayBase_default"
proof -
  let ?s = "add_pack class_type (1::nat) [3] ArrayBase_default"
  have h: "holds ?s [1, 3]" by code_simp
  have u: "numUsed ?s = 2" by code_simp
  have r: "isPositiveAndBelow 0 (numUsed ?s) \<and> isPositiveAndBelow 1 (numUsed ?s)"
    and o: "\<not> (isPositiveAndBelow 0 (numUsed ?s) \<and> isPositiveAndBelow 2 (numUsed ?s))"
    unfolding u by (simp_all add: isPositiveAndBelow_def)
  from swap_exchanges [OF h, of 0 1] r
  have "holds (swap 0 1 ?s) ([1, 3][nat 0 := [1, 3] ! nat 1, nat 1 := [1, 3] ! nat 0])"
    by blast
  then have a: "contents (swap 0 1 ?s) = [Obj 3, Obj 1]"
    by (simp add: holds_def)
  from swap_exchanges [OF h, of 0 2] o have b: "swap 0 2 ?s = ?s"
    by blast
  from a b h show ?thesis by simp
qed

text \<open>
  The scenario of the spec, for every element type: starting empty, \<^verbatim>\<open>add (1)\<close>, \<^verbatim>\<open>add (2)\<close>,
  \<^verbatim>\<open>add (3)\<close>, \<^verbatim>\<open>insert (1, 9, 1)\<close> gives \<open>[1, 9, 2, 3]\<close> of length 4;
  \<^verbatim>\<open>removeElements (1, 2)\<close> on that gives \<open>[1, 3]\<close> of length 2; \<^verbatim>\<open>swap (0, 1)\<close> then gives
  \<open>[3, 1]\<close>.
\<close>

lemma can_hold_small:
  assumes "holds s xs" "length xs < 1000" "0 \<le> n" "n < 1000"
  shows "can_hold s n"
proof -
  have "numUsed s + n < 2000" "0 \<le> numUsed s + n"
    using assms by (simp_all add: holds_length)
  then have "(numUsed s + n) + (numUsed s + n) div 2 + 8 \<le> INT_MAX"
    unfolding INT_MAX_def by linarith
  then show ?thesis by (simp add: can_hold_def)
qed

theorem spec_scenario:
  "contents (insert_arr tr 1 9 1 (add tr 3 (add tr 2 (add tr (1::nat) ArrayBase_default))))
       = [Obj 1, Obj 9, Obj 2, Obj 3]
   \<and> numUsed (insert_arr tr 1 9 1 (add tr 3 (add tr 2 (add tr (1::nat) ArrayBase_default)))) = 4
   \<and> contents (removeElements tr 1 2
        (insert_arr tr 1 9 1 (add tr 3 (add tr 2 (add tr (1::nat) ArrayBase_default)))))
       = [Obj 1, Obj 3]
   \<and> numUsed (removeElements tr 1 2
        (insert_arr tr 1 9 1 (add tr 3 (add tr 2 (add tr (1::nat) ArrayBase_default))))) = 2
   \<and> contents (swap 0 1 (removeElements tr 1 2
        (insert_arr tr 1 9 1 (add tr 3 (add tr 2 (add tr (1::nat) ArrayBase_default))))))
       = [Obj 3, Obj 1]"
proof -
  let ?s0 = "ArrayBase_default :: nat ArrayBase"
  let ?s3 = "add tr 3 (add tr 2 (add tr (1::nat) ?s0))"
  let ?s4 = "insert_arr tr 1 9 1 ?s3"
  let ?s5 = "removeElements tr 1 2 ?s4"
  have h0: "holds ?s0 []"
    by (simp add: holds_def well_formed_def contents_def ArrayBase_default_def INT_MAX_def)
  have c0: "can_hold ?s0 1" by (rule can_hold_small [OF h0]) simp_all
  have out0: "\<not> isPositiveAndBelow (numUsed ?s0) (numUsed ?s0)"
    by (simp add: isPositiveAndBelow_def)
  have "holds (insert_arr tr (numUsed ?s0) 1 1 ?s0) ([] @ replicate (nat 1) 1)"
    using h0 _ c0 out0 by (rule insert_arr_holds_append) simp
  then have h1: "holds (add tr 1 ?s0) [1]"
    by (simp add: add_is_insert_at_end)
  let ?s1 = "add tr (1::nat) ?s0"
  have c1: "can_hold ?s1 1" by (rule can_hold_small [OF h1]) simp_all
  have out1: "\<not> isPositiveAndBelow (numUsed ?s1) (numUsed ?s1)"
    by (simp add: isPositiveAndBelow_def)
  have "holds (insert_arr tr (numUsed ?s1) 2 1 ?s1) ([1] @ replicate (nat 1) 2)"
    using h1 _ c1 out1 by (rule insert_arr_holds_append) simp
  then have h2: "holds (add tr 2 ?s1) [1, 2]"
    by (simp add: add_is_insert_at_end)
  let ?s2 = "add tr 2 ?s1"
  have c2: "can_hold ?s2 1" by (rule can_hold_small [OF h2]) simp_all
  have out2: "\<not> isPositiveAndBelow (numUsed ?s2) (numUsed ?s2)"
    by (simp add: isPositiveAndBelow_def)
  have "holds (insert_arr tr (numUsed ?s2) 3 1 ?s2) ([1, 2] @ replicate (nat 1) 3)"
    using h2 _ c2 out2 by (rule insert_arr_holds_append) simp
  then have h3: "holds ?s3 [1, 2, 3]"
    by (simp add: add_is_insert_at_end)
  have c3: "can_hold ?s3 1" by (rule can_hold_small [OF h3]) simp_all
  have "holds ?s4 (take (nat 1) [1, 2, 3] @ replicate (nat 1) 9 @ drop (nat 1) [1, 2, 3])"
    using h3 _ c3 by (rule insert_arr_holds_inside) (simp_all add: ArrayBase_default_def int32_def)
  then have h4: "holds ?s4 [1, 9, 2, 3]" by simp
  have "holds ?s5 (take (nat 1) [1, 9, 2, 3] @ drop (nat (1 + 2)) [1, 9, 2, 3])"
    using h4 by (rule removeElements_holds)
       (simp add: removeElements_precondition_def ArrayBase_default_def int32_def)
  then have h5: "holds ?s5 [1, 3]" by simp
  have u4: "numUsed ?s4 = 4" and u5: "numUsed ?s5 = 2"
    by (simp_all add: ArrayBase_default_def int32_def)
  have r: "isPositiveAndBelow 0 (numUsed ?s5) \<and> isPositiveAndBelow 1 (numUsed ?s5)"
    unfolding u5 by (simp add: isPositiveAndBelow_def)
  from swap_holds [OF h5, of 0 1] r
  have "holds (swap 0 1 ?s5) ([1, 3][nat 0 := [1, 3] ! nat 1, nat 1 := [1, 3] ! nat 0])"
    by blast
  then have h6: "holds (swap 0 1 ?s5) [3, 1]" by simp
  from h4 h5 h6 u4 u5 show ?thesis
    by (simp only: holds_def list.map simp_thms)
qed

text \<open>
  Capacity monotonicity: on a well-formed container no admissible operation other than the two
  explicit requests \<^verbatim>\<open>setAllocatedSize\<close> and \<^verbatim>\<open>shrinkToNoMoreThan\<close> lowers the capacity.
\<close>

lemma ensureAllocatedSize_monotone:
  assumes "well_formed s" "0 \<le> n" "can_hold s n"
  shows "numAllocated s \<le> numAllocated (ensureAllocatedSize tr (int32 (numUsed s + n)) s)"
proof -
  have "int32 (numUsed s + n) = numUsed s + n"
    using can_hold_is_int [OF assms] by (rule int32_id)
  with ensure_room [OF assms, of tr] show ?thesis
    by (cases "numUsed s + n > numAllocated s") (simp_all add: ensureAllocatedSize_def)
qed

theorem capacity_monotone:
  assumes "well_formed s" "admissible x s"
    and "\<forall>n. x \<noteq> SetAllocatedSize n \<and> x \<noteq> ShrinkToNoMoreThan n"
  shows "numAllocated s \<le> numAllocated (perform tr x s)"
proof (cases x)
  case (Add v)
  with assms ensureAllocatedSize_monotone [of s 1 tr] show ?thesis by simp
next
  case (AddPack v vs)
  with assms ensureAllocatedSize_monotone [of s "1 + int (length vs)" tr] show ?thesis
    by (simp add: add.assoc)
next
  case (AddArray same vs n)
  with assms ensureAllocatedSize_monotone [of s n tr] show ?thesis by simp
next
  case (AddArrayItems vs)
  with assms ensureAllocatedSize_monotone [of s "int (length vs)" tr] show ?thesis
    by (simp add: addArray_items_sizes)
next
  case (AddArrayRange same vs startIndex n)
  define start where "start = (if startIndex < 0 then 0 else startIndex)"
  define size where "size = int (length vs)"
  define n' where "n' = (if n < 0 \<or> start + n > size then size - start else n)"
  from assms AddArrayRange have adm: "start \<le> size" "size \<le> INT_MAX"
      "n < 0 \<or> start + n \<le> INT_MAX" "can_hold s n'"
    by (auto simp: Let_def start_def size_def n'_def max_def)
  have start0: "0 \<le> start" by (simp add: start_def)
  have "is_int size" using adm by (simp add: is_int_def size_def INT_MIN_def)
  then have sz: "int32 size = size" by (rule int32_id)
  have "is_int (size - start)"
    using adm start0 by (simp add: is_int_def INT_MIN_def INT_MAX_def)
  then have df: "int32 (size - start) = size - start" by (rule int32_id)
  have sm: "int32 (start + n) = start + n" if "0 \<le> n"
    using that adm start0 by (intro int32_id) (auto simp: is_int_def INT_MIN_def)
  have cnt: "fst (addArray_range tr same vs startIndex n s) = n'"
    using sm by (auto simp: addArray_range_def Let_def start_def [symmetric] size_def [symmetric]
        sz df n'_def)
  have n'0: "0 \<le> n'" using adm by (auto simp: n'_def)
  have "snd (addArray_range tr same vs startIndex n s)
          = addArray tr same (\<lambda>k. read_src vs (start + k)) n' s"
    using cnt by (simp add: addArray_range_def Let_def start_def [symmetric])
  with AddArrayRange assms(1) n'0 adm(4) ensureAllocatedSize_monotone [of s n' tr]
  show ?thesis by simp
next
  case (Insert at v n)
  with assms ensureAllocatedSize_monotone [of s n tr] show ?thesis by simp
next
  case (InsertArray at vs n)
  with assms ensureAllocatedSize_monotone [of s n tr] show ?thesis by simp
next
  case (EnsureAllocatedSize n)
  show ?thesis
  proof (cases "n \<le> numAllocated s")
    case True
    with EnsureAllocatedSize show ?thesis by (simp add: ensureAllocatedSize_numAllocated)
  next
    case False
    with EnsureAllocatedSize assms have fit: "n + n div 2 + 8 \<le> INT_MAX" and n0: "0 \<le> n"
      by (auto simp: well_formed_def)
    then have "numAllocated (ensureAllocatedSize tr n s) = 8 * ((n + n div 2 + 8) div 8)"
      using False grown_size [of n] by (simp add: ensureAllocatedSize_numAllocated)
    moreover have "n \<le> 8 * ((n + n div 2 + 8) div 8)" using n0 by linarith
    ultimately show ?thesis
      using EnsureAllocatedSize False by simp
  qed
qed (use assms in auto)

theorem capacity_monotone_witness:
  "well_formed (add class_type (1::nat) ArrayBase_default)
   \<and> admissible (Insert 0 (9::nat) 20) (add class_type (1::nat) ArrayBase_default)
   \<and> numAllocated (add class_type (1::nat) ArrayBase_default) = 8
   \<and> numAllocated (perform class_type (Insert 0 (9::nat) 20)
        (add class_type (1::nat) ArrayBase_default)) = 32"
proof -
  let ?s = "add class_type (1::nat) ArrayBase_default"
  have w: "well_formed ?s" and a: "admissible (Insert 0 (9::nat) 20) ?s"
    by (simp_all add: well_formed_def can_hold_def ArrayBase_default_def int32_def INT_MAX_def
        ensureAllocatedSize_numAllocated signed_divide_int_def)
  have n: "\<forall>n. Insert 0 (9::nat) 20 \<noteq> SetAllocatedSize n \<and> Insert 0 (9::nat) 20 \<noteq> ShrinkToNoMoreThan n"
    by simp
  have c: "numAllocated ?s = 8"
    and d: "numAllocated (perform class_type (Insert 0 (9::nat) 20) ?s) = 32"
    by (simp_all add: ArrayBase_default_def int32_def ensureAllocatedSize_numAllocated
        signed_divide_int_def)
  from capacity_monotone [OF w a n, of class_type] w a c d show ?thesis
    by simp
qed

end
